theory Spec2Isabelle
  imports Main "HOL-Library.AList"
begin

section \<open>The canonical signed payload\<close>

text \<open>
  The decimal numeral of a natural number, without leading zeros. \<^verbatim>\<open>String(n)\<close> is this
  numeral for every non-negative safe integer \<open>n\<close> (below \<open>2^53\<close>): the request counter,
  which starts at zero, and every value of \<^verbatim>\<open>Date.now()\<close>.
\<close>

definition digit :: "nat \<Rightarrow> char" where
  "digit d = ''0123456789'' ! d"

fun String_num :: "nat \<Rightarrow> string" where
  "String_num n = (if n < 10 then [digit n] else String_num (n div 10) @ [digit (n mod 10)])"

declare String_num.simps [simp del]

text \<open>The value a string of decimal digits denotes; the inverse reading of \<open>String_num\<close>.\<close>

definition digit_value :: "char \<Rightarrow> nat" where
  "digit_value c = of_char c - 48"

definition decimal_value :: "string \<Rightarrow> nat" where
  "decimal_value s = foldl (\<lambda>acc c. 10 * acc + digit_value c) 0 s"

text \<open>
  A Number that holds a non-negative integer is modelled by that integer. Every integer
  below \<open>2^53\<close> is a Number; from there on the Numbers are the integers whose
  significand fits 53 bits. \<open>to_Number v\<close> is the Number an integer \<open>v\<close> is stored as:
  the nearest Number, the one with the even significand when two are equally near. A
  result of \<open>2^1024\<close> stands for \<^verbatim>\<open>Infinity\<close>.
\<close>

fun bit_length :: "nat \<Rightarrow> nat" where
  "bit_length n = (if n = 0 then 0 else Suc (bit_length (n div 2)))"

declare bit_length.simps [simp del]

definition to_Number :: "nat \<Rightarrow> nat" where
  "to_Number v =
     (if v < 2 ^ 53 then v
      else let sh = bit_length v - 53; q = v div 2 ^ sh; r = v mod 2 ^ sh
           in (if 2 ^ sh < 2 * r \<or> (2 * r = 2 ^ sh \<and> odd q) then q + 1 else q) * 2 ^ sh)"

text \<open>
  \<^verbatim>\<open>String(x)\<close> for the Number \<open>x\<close> that a non-negative integer is stored as, as the
  language defines the conversion: the digits are those of the integer \<open>s\<close> with the fewest
  digits such that \<open>s * 10^e\<close>, read as a Number, is \<open>x\<close>; of two such integers the one
  nearer to \<open>x\<close>, and the even one when they are equally near. A result of up to 21
  digits is written out, with \<open>e\<close> zeros after the digits of \<open>s\<close>; a longer one is
  written in exponent notation. \<open>shortest x e\<close> looks for \<open>s\<close> from the exponent \<open>e\<close>
  downwards, among the two multiples of \<open>10^e\<close> that enclose \<open>x\<close>.
\<close>

definition reads_as :: "nat \<Rightarrow> nat \<Rightarrow> nat \<Rightarrow> bool" where
  "reads_as x s e \<longleftrightarrow> 0 < s \<and> to_Number (s * 10 ^ e) = x"

fun shortest :: "nat \<Rightarrow> nat \<Rightarrow> nat \<times> nat" where
  "shortest x 0 = (x, 0)"
| "shortest x (Suc e) =
     (let lo = x div 10 ^ Suc e; hi = lo + 1
      in if reads_as x lo (Suc e) \<and> reads_as x hi (Suc e)
         then (if x - lo * 10 ^ Suc e < hi * 10 ^ Suc e - x
                    \<or> (x - lo * 10 ^ Suc e = hi * 10 ^ Suc e - x \<and> even lo)
               then (lo, Suc e) else (hi, Suc e))
         else if reads_as x lo (Suc e) then (lo, Suc e)
         else if reads_as x hi (Suc e) then (hi, Suc e)
         else shortest x e)"

declare shortest.simps [simp del]

definition Number_toString :: "nat \<Rightarrow> string" where
  "Number_toString v =
     (let x = to_Number v
      in if x = 0 then ''0''
         else if 2 ^ 1024 \<le> x then ''Infinity''
         else let (s, e) = shortest x (length (String_num x));
                  ds = String_num s; k = length ds; n = k + e
              in if n \<le> 21 then ds @ replicate e (CHR ''0'')
                 else if k = 1 then ds @ ''e+'' @ String_num (n - 1)
                 else hd ds # ''.'' @ tl ds @ ''e+'' @ String_num (n - 1))"

text \<open>
  \<^verbatim>\<open>Array.prototype.join(sep)\<close> on an array of strings: the elements in order, the
  separator between neighbours, nothing before the first or after the last.
\<close>

fun join :: "string list \<Rightarrow> string \<Rightarrow> string" where
  "join [] sep = []"
| "join [x] sep = x"
| "join (x # y # ys) sep = x @ sep @ join (y # ys) sep"

text \<open>
  The argument object of \<^verbatim>\<open>buildDeviceAuthPayload\<close>. \<open>token\<close> is \<open>None\<close> when the
  property is \<^verbatim>\<open>null\<close> or \<^verbatim>\<open>undefined\<close>; \<open>signedAtMs\<close> is a non-negative integer,
  held as the Number it is stored as.
\<close>

record auth_params =
  deviceId :: string
  clientId :: string
  clientMode :: string
  role :: string
  scopes :: "string list"
  signedAtMs :: nat
  token :: "string option"

definition buildDeviceAuthPayload :: "auth_params \<Rightarrow> string" where
  "buildDeviceAuthPayload params =
     (let scopes' = join (scopes params) '','';
          token' = (case token params of None \<Rightarrow> [] | Some t \<Rightarrow> t)
      in join [''v1'', deviceId params, clientId params, clientMode params, role params,
               scopes', Number_toString (signedAtMs params), token'] ''|'')"

section \<open>JSON values\<close>

text \<open>
  What \<^verbatim>\<open>JSON.parse\<close> returns. An object is the list of its own properties. The numbers
  the script reads or writes (the record version, timestamps) are integers.
  \<^verbatim>\<open>undefined\<close> is not a JSON value: an expression that may be \<^verbatim>\<open>undefined\<close> has type
  \<open>json option\<close>, with \<open>None\<close> for \<^verbatim>\<open>undefined\<close>.
\<close>

datatype json =
    JNull
  | JBool bool
  | JNum int
  | JStr string
  | JArr "json list"
  | JObj "(string \<times> json) list"

text \<open>
  \<^verbatim>\<open>x.name\<close> for the fixed property names of the script (\<^verbatim>\<open>type\<close>, \<^verbatim>\<open>id\<close>,
  \<^verbatim>\<open>tokens\<close>, \<^verbatim>\<open>token\<close>, ...), on a value that is not \<^verbatim>\<open>null\<close>: an own property of an
  object, and \<^verbatim>\<open>undefined\<close> on every other value, since none of these names is a
  property of arrays, strings, numbers or booleans, or inherited from a prototype.
  \<^verbatim>\<open>x?.name\<close> is the same, and \<^verbatim>\<open>undefined\<close> on \<^verbatim>\<open>null\<close> and \<^verbatim>\<open>undefined\<close>.
\<close>

fun own :: "json \<Rightarrow> string \<Rightarrow> json option" where
  "own (JObj kvs) name = map_of kvs name"
| "own _ name = None"

definition opt :: "json option \<Rightarrow> string \<Rightarrow> json option" where
  "opt x name = (case x of None \<Rightarrow> None | Some j \<Rightarrow> own j name)"

text \<open>\<^verbatim>\<open>x ?? null\<close>: \<^verbatim>\<open>null\<close> and \<^verbatim>\<open>undefined\<close> both read as absent.\<close>

definition nullish :: "json option \<Rightarrow> bool" where
  "nullish x = (x = None \<or> x = Some JNull)"

definition or_null :: "json option \<Rightarrow> json option" where
  "or_null x = (if nullish x then None else x)"

text \<open>Truthiness of a value, as \<^verbatim>\<open>if (x)\<close>, \<^verbatim>\<open>x && y\<close> and \<^verbatim>\<open>x || y\<close> test it.\<close>

fun truthy :: "json option \<Rightarrow> bool" where
  "truthy None = False"
| "truthy (Some JNull) = False"
| "truthy (Some (JBool b)) = b"
| "truthy (Some (JNum n)) = (n \<noteq> 0)"
| "truthy (Some (JStr s)) = (s \<noteq> [])"
| "truthy (Some (JArr xs)) = True"
| "truthy (Some (JObj kvs)) = True"

text \<open>
  A property key that is an array index: the decimal numeral, without leading zeros, of
  an integer below \<open>2^32 - 1\<close>.
\<close>

definition array_index :: "string \<Rightarrow> nat option" where
  "array_index k =
     (if k \<noteq> [] \<and> String_num (decimal_value k) = k \<and> decimal_value k < 4294967295
      then Some (decimal_value k) else None)"

text \<open>
  \<^verbatim>\<open>x[key]\<close> with a computed key, as far as the caller can see through the \<^verbatim>\<open>?.token\<close>
  that follows it: an own property of an object or an element of an array. Every other
  value such an access yields (an inherited method, a prototype object, a length, a
  character) has no property \<^verbatim>\<open>token\<close>, and reads here as \<^verbatim>\<open>undefined\<close>.
\<close>

fun member :: "json \<Rightarrow> string \<Rightarrow> json option" where
  "member (JObj kvs) key = map_of kvs key"
| "member (JArr xs) key =
     (case array_index key of
        Some i \<Rightarrow> if i < length xs then Some (xs ! i) else None
      | None \<Rightarrow> None)"
| "member _ key = None"

datatype js_error = TypeError | RangeError

text \<open>
  \<^verbatim>\<open>x[key] = v\<close> in strict mode, for an object \<open>v\<close>; the result is \<open>x\<close> as
  \<^verbatim>\<open>JSON.stringify\<close> then writes it. On an object the assignment overwrites or adds an
  own property, except for the key \<^verbatim>\<open>__proto__\<close> when it is not an own property: then
  the inherited setter replaces the prototype and no own property appears. On an array
  an index stores an element (the holes before it are written as \<^verbatim>\<open>null\<close>; the array
  is taken to stay within what can be written), \<^verbatim>\<open>length\<close>
  raises (an object is not a valid length), any other key makes a property that is not
  serialised. On a string, number or boolean the assignment raises, except through
  the \<^verbatim>\<open>__proto__\<close> setter, which ignores such a receiver.
\<close>

fun assign :: "json \<Rightarrow> string \<Rightarrow> json \<Rightarrow> js_error + json" where
  "assign (JObj kvs) key v =
     (if key = ''__proto__'' \<and> map_of kvs key = None then Inr (JObj kvs)
      else Inr (JObj (AList.update key v kvs)))"
| "assign (JArr xs) key v =
     (case array_index key of
        Some i \<Rightarrow>
          Inr (JArr (if i < length xs then xs[i := v]
                     else xs @ replicate (i - length xs) JNull @ [v]))
      | None \<Rightarrow> if key = ''length'' then Inl RangeError else Inr (JArr xs))"
| "assign JNull key v = Inl TypeError"
| "assign x key v = (if key = ''__proto__'' then Inr x else Inl TypeError)"

section \<open>The token cache\<close>

text \<open>
  The file \<^verbatim>\<open>DEVICE_AUTH_FILE\<close>: missing, present with content that cannot be read or
  parsed, or present with the JSON value it parses to. Writing a value and parsing it
  back gives the value; the directory and the file can be written and removed.
\<close>

datatype auth_file = Absent | Unreadable | Content json

text \<open>\<^verbatim>\<open>data.tokens?.[role]\<close> of a record that passes the version and identifier test.\<close>

definition is_record_of :: "json \<Rightarrow> string \<Rightarrow> bool" where
  "is_record_of d deviceId' \<longleftrightarrow>
     own d ''version'' = Some (JNum 1) \<and> own d ''deviceId'' = Some (JStr deviceId')"

definition stored_entry :: "auth_file \<Rightarrow> string \<Rightarrow> string \<Rightarrow> json option" where
  "stored_entry f deviceId' role' =
     (case f of
        Content d \<Rightarrow>
          if \<not> is_record_of d deviceId' then None
          else if nullish (own d ''tokens'') then None
          else member (the (own d ''tokens'')) role'
      | _ \<Rightarrow> None)"

definition loadStoredDeviceToken :: "auth_file \<Rightarrow> string \<Rightarrow> string \<Rightarrow> json option" where
  "loadStoredDeviceToken f deviceId' role' =
     (case f of
        Absent \<Rightarrow> None
      | Unreadable \<Rightarrow> None
      | Content d \<Rightarrow>
          if own d ''version'' \<noteq> Some (JNum 1) \<or> own d ''deviceId'' \<noteq> Some (JStr deviceId')
          then None
          else let entry = (if nullish (own d ''tokens'') then None
                            else member (the (own d ''tokens'')) role')
               in or_null (opt entry ''token''))"

definition existing_record :: "auth_file \<Rightarrow> string \<Rightarrow> json option" where
  "existing_record f deviceId' =
     (case f of
        Content d \<Rightarrow> if is_record_of d deviceId' then Some d else None
      | _ \<Rightarrow> None)"

definition storeDeviceToken ::
  "auth_file \<Rightarrow> string \<Rightarrow> string \<Rightarrow> json \<Rightarrow> json \<Rightarrow> nat \<Rightarrow> js_error + auth_file" where
  "storeDeviceToken f deviceId' role' token' scopes' now =
     (let existing = existing_record f deviceId';
          tokens = (if nullish (opt existing ''tokens'') then JObj []
                    else the (opt existing ''tokens''));
          entry = JObj [(''token'', token'), (''role'', JStr role'), (''scopes'', scopes'),
                        (''updatedAtMs'', JNum (int now))]
      in case assign tokens role' entry of
           Inl e \<Rightarrow> Inl e
         | Inr tokens' \<Rightarrow>
             Inr (Content (JObj [(''version'', JNum 1), (''deviceId'', JStr deviceId'),
                                 (''tokens'', tokens')])))"

text \<open>\<^verbatim>\<open>try { fs.unlinkSync(DEVICE_AUTH_FILE); } catch {}\<close>\<close>

definition unlinkSync :: "auth_file \<Rightarrow> auth_file" where
  "unlinkSync f = Absent"

section \<open>The correlation table, timers and promises\<close>

text \<open>
  A value handed to a promise: JSON data (\<open>None\<close> for \<^verbatim>\<open>undefined\<close>) or an \<^verbatim>\<open>Error\<close>
  object with its message. Every value the script rejects with or throws is an
  \<^verbatim>\<open>Error\<close>.
\<close>

datatype jsval = Data "json option" | Error string

text \<open>The two settling functions of the promise with a given number.\<close>

datatype cont = Resolve nat | Reject nat

fun promise_of :: "cont \<Rightarrow> nat" where
  "promise_of (Resolve p) = p"
| "promise_of (Reject p) = p"

record entry =
  resolve :: cont
  reject :: cont
  timer :: nat

text \<open>
  The three timer callbacks of the script, each with the variables it closes over: the
  one of \<^verbatim>\<open>sendReq\<close> (the id, the method, \<^verbatim>\<open>reject\<close>), the one of \<^verbatim>\<open>runSend\<close>
  (\<^verbatim>\<open>resolve\<close>) and the connection timer.
\<close>

datatype callback =
    RequestTimeout string string cont
  | SendTimeout cont
  | ConnectionTimeout

text \<open>
  The variables of the module and what the script can observe of its surroundings.
  \<open>pending\<close> is the \<^verbatim>\<open>Map\<close>, in insertion order; \<open>timers\<close> holds the armed timers
  (handle, delay, callback); \<open>settled\<close> is the chronological list of every call of a
  settling function, with its argument; \<open>sent\<close> the frames given to \<^verbatim>\<open>ws.send\<close>;
  \<open>exited\<close> the code given to \<^verbatim>\<open>process.exit\<close>. The request counter counts the
  requests of one short run and stays far below \<open>2^53\<close>, where \<^verbatim>\<open>++\<close> is exact.
\<close>

record state =
  msgId :: nat
  pending :: "(string \<times> entry) list"
  authenticated :: bool
  sendRunId :: "json option"
  connectNonce :: "json option"
  timers :: "(nat \<times> nat \<times> callback) list"
  timer_count :: nat
  promise_count :: nat
  settled :: "(cont \<times> jsval) list"
  sent :: "json list"
  readyState :: nat
  deviceAuthFile :: auth_file
  stderr :: "string list"
  stdout :: "jsval list"
  exited :: "nat option"

text \<open>
  The constants of the module that depend on the machine, and the functions of the
  platform the script calls: the signature primitive, \<^verbatim>\<open>JSON.stringify\<close> and the
  message text of a native error. A cached token is a string.
\<close>

record env =
  IDENTITY_deviceId :: string
  IDENTITY_privateKeyPem :: string
  publicKeyRaw :: string
  TOKEN :: string
  STORED_DEVICE_TOKEN :: "string option"
  SEND_TIMEOUT :: nat
  url :: string
  process_platform :: string
  sessionKey :: string
  message :: string
  signPayload :: "string \<Rightarrow> string \<Rightarrow> string"
  JSON_stringify :: "json \<Rightarrow> string"
  native_message :: "js_error \<Rightarrow> string"

definition CONNECTION_TIMEOUT :: nat where "CONNECTION_TIMEOUT = 5000"
definition OPERATION_TIMEOUT :: nat where "OPERATION_TIMEOUT = 10000"

definition EXIT_CONN :: nat where "EXIT_CONN = 1"
definition EXIT_AUTH :: nat where "EXIT_AUTH = 2"
definition EXIT_OP :: nat where "EXIT_OP = 3"

definition ROLE :: string where "ROLE = ''operator''"

definition SCOPES :: "string list" where
  "SCOPES = [''operator.read'', ''operator.write'', ''operator.admin'',
             ''operator.approvals'', ''operator.pairing'']"

text \<open>\<^verbatim>\<open>WebSocket.CONNECTING\<close>, \<^verbatim>\<open>OPEN\<close>, \<^verbatim>\<open>CLOSING\<close>, \<^verbatim>\<open>CLOSED\<close> are 0 to 3.\<close>

definition CLOSING :: nat where "CLOSING = 2"
definition CLOSED :: nat where "CLOSED = 3"

text \<open>The handle of the connection timer, the first timer the script arms.\<close>

definition connTimer :: nat where "connTimer = 0"

definition init :: "auth_file \<Rightarrow> state" where
  "init f = \<lparr>msgId = 0, pending = [], authenticated = False, sendRunId = None,
             connectNonce = None, timers = [(connTimer, CONNECTION_TIMEOUT, ConnectionTimeout)],
             timer_count = 1, promise_count = 0, settled = [], sent = [], readyState = 0,
             deviceAuthFile = f, stderr = [], stdout = [], exited = None\<rparr>"

text \<open>Calling a settling function; \<^verbatim>\<open>setTimeout\<close>; \<^verbatim>\<open>clearTimeout\<close>.\<close>

definition call :: "cont \<Rightarrow> jsval \<Rightarrow> state \<Rightarrow> state" where
  "call k v st = st\<lparr>settled := settled st @ [(k, v)]\<rparr>"

definition setTimeout :: "callback \<Rightarrow> nat \<Rightarrow> state \<Rightarrow> nat \<times> state" where
  "setTimeout cb delay st =
     (timer_count st,
      st\<lparr>timers := timers st @ [(timer_count st, delay, cb)],
         timer_count := timer_count st + 1\<rparr>)"

definition clearTimeout :: "nat \<Rightarrow> state \<Rightarrow> state" where
  "clearTimeout t st = st\<lparr>timers := AList.delete t (timers st)\<rparr>"

text \<open>
  How a promise is settled: by the first call of one of its settling functions; later
  calls have no effect.
\<close>

datatype awaited = Fulfilled jsval | Rejected jsval

fun outcome :: "nat \<Rightarrow> (cont \<times> jsval) list \<Rightarrow> awaited option" where
  "outcome p [] = None"
| "outcome p ((Resolve q, v) # calls) = (if q = p then Some (Fulfilled v) else outcome p calls)"
| "outcome p ((Reject q, v) # calls) = (if q = p then Some (Rejected v) else outcome p calls)"

definition calls_on :: "nat \<Rightarrow> (cont \<times> jsval) list \<Rightarrow> (cont \<times> jsval) list" where
  "calls_on p calls = filter (\<lambda>(k, v). promise_of k = p) calls"

text \<open>
  \<^verbatim>\<open>pending.get(key)\<close> and \<^verbatim>\<open>pending.delete(key)\<close> for a key read from a frame: the keys
  of the table are strings, and only a string equals a string.
\<close>

definition pending_get :: "json option \<Rightarrow> (string \<times> entry) list \<Rightarrow> entry option" where
  "pending_get key m = (case key of Some (JStr k) \<Rightarrow> map_of m k | _ \<Rightarrow> None)"

definition pending_delete :: "json option \<Rightarrow> (string \<times> entry) list \<Rightarrow> (string \<times> entry) list" where
  "pending_delete key m = (case key of Some (JStr k) \<Rightarrow> AList.delete k m | _ \<Rightarrow> m)"

definition request_frame :: "string \<Rightarrow> string \<Rightarrow> json \<Rightarrow> json" where
  "request_frame id' method params =
     JObj [(''type'', JStr ''req''), (''id'', JStr id'), (''method'', JStr method),
           (''params'', params)]"

text \<open>\<^verbatim>\<open>sendReq\<close> returns the promise it creates.\<close>

definition sendReq :: "string \<Rightarrow> json \<Rightarrow> state \<Rightarrow> nat \<times> state" where
  "sendReq method params st =
     (let st1 = st\<lparr>msgId := msgId st + 1\<rparr>;
          id' = String_num (msgId st1);
          p = promise_count st1;
          st2 = st1\<lparr>promise_count := p + 1\<rparr>;
          (t, st3) = setTimeout (RequestTimeout id' method (Reject p)) OPERATION_TIMEOUT st2;
          st4 = st3\<lparr>pending :=
                  AList.update id' \<lparr>resolve = Resolve p, reject = Reject p, timer = t\<rparr>
                    (pending st3)\<rparr>
      in (p, st4\<lparr>sent := sent st4 @ [request_frame id' method params]\<rparr>))"

definition handleResponse :: "env \<Rightarrow> json \<Rightarrow> state \<Rightarrow> state" where
  "handleResponse E msg st =
     (case pending_get (own msg ''id'') (pending st) of
        None \<Rightarrow> st
      | Some entry \<Rightarrow>
          let st1 = clearTimeout (timer entry) st;
              st2 = st1\<lparr>pending := pending_delete (own msg ''id'') (pending st1)\<rparr>
          in if truthy (own msg ''ok'') then call (resolve entry) (Data (own msg ''payload'')) st2
             else call (reject entry)
                    (Error (JSON_stringify E
                       (if truthy (own msg ''error'') then the (own msg ''error'')
                        else JStr ''Unknown error''))) st2)"

text \<open>\<^verbatim>\<open>ws.close()\<close> starts the closing handshake unless it has started or ended.\<close>

definition ws_close :: "state \<Rightarrow> state" where
  "ws_close st = (if readyState st < CLOSING then st\<lparr>readyState := CLOSING\<rparr> else st)"

definition cleanup :: "nat \<Rightarrow> state \<Rightarrow> state" where
  "cleanup code st =
     (let st1 = fold (\<lambda>(id', entry). clearTimeout (timer entry)) (pending st) st;
          st2 = st1\<lparr>pending := []\<rparr>;
          st3 = (if readyState st2 \<le> CLOSING then ws_close st2 else st2)
      in st3\<lparr>exited := Some code\<rparr>)"

definition die :: "string \<Rightarrow> nat \<Rightarrow> state \<Rightarrow> state" where
  "die msg code st = st\<lparr>stderr := stderr st @ [msg], exited := Some code\<rparr>"

text \<open>The handlers of \<^verbatim>\<open>SIGINT\<close> and \<^verbatim>\<open>SIGTERM\<close>.\<close>

definition signal :: "state \<Rightarrow> state" where
  "signal st = cleanup EXIT_OP st"

definition onerror :: "env \<Rightarrow> state \<Rightarrow> state" where
  "onerror E st =
     die (''Error: Cannot connect to gateway at '' @ url E) EXIT_CONN (clearTimeout connTimer st)"

definition onclose :: "state \<Rightarrow> state" where
  "onclose st =
     (if \<not> authenticated st
      then die ''Error: Connection closed before authentication'' EXIT_CONN
             (clearTimeout connTimer st)
      else (fold (\<lambda>(id', entry) s.
                    call (reject entry) (Error ''Connection closed unexpectedly'')
                      (clearTimeout (timer entry) s))
              (pending st) st)\<lparr>pending := []\<rparr>)"

text \<open>
  An object literal with a property whose value may be \<^verbatim>\<open>undefined\<close>: such a property
  reads as \<^verbatim>\<open>undefined\<close> and is not serialised, as if it were not there.
\<close>

definition property :: "string \<Rightarrow> json option \<Rightarrow> (string \<times> json) list" where
  "property name v = (case v of None \<Rightarrow> [] | Some j \<Rightarrow> [(name, j)])"

definition run_status :: "json option \<Rightarrow> string \<Rightarrow> jsval" where
  "run_status runId status = Data (Some (JObj (property ''runId'' runId @ [(''status'', JStr status)])))"

text \<open>A timer fires: nothing happens unless it is armed; an armed timer fires once.\<close>

definition fire :: "env \<Rightarrow> nat \<Rightarrow> state \<Rightarrow> state" where
  "fire E t st =
     (case map_of (timers st) t of
        None \<Rightarrow> st
      | Some (delay, cb) \<Rightarrow>
          let st1 = st\<lparr>timers := AList.delete t (timers st)\<rparr>
          in (case cb of
                RequestTimeout id' method reject' \<Rightarrow>
                  call reject' (Error (''Timeout waiting for response to '' @ method))
                    (st1\<lparr>pending := AList.delete id' (pending st1)\<rparr>)
              | SendTimeout resolve' \<Rightarrow>
                  call resolve' (run_status (sendRunId st1) ''timeout'')
                    (st1\<lparr>pending := AList.delete ''send-wait'' (pending st1)\<rparr>)
              | ConnectionTimeout \<Rightarrow>
                  die (''Error: Connection to '' @ url E @ '' timed out'') EXIT_CONN st1))"

text \<open>
  \<^verbatim>\<open>a === b\<close> on two values that come from different frames: equal primitives are
  equal, two objects or arrays are never the same object.
\<close>

fun strict_eq :: "json option \<Rightarrow> json option \<Rightarrow> bool" where
  "strict_eq None None = True"
| "strict_eq (Some JNull) (Some JNull) = True"
| "strict_eq (Some (JBool a)) (Some (JBool b)) = (a = b)"
| "strict_eq (Some (JNum a)) (Some (JNum b)) = (a = b)"
| "strict_eq (Some (JStr a)) (Some (JStr b)) = (a = b)"
| "strict_eq _ _ = False"

section \<open>The handshake\<close>

definition connectParams :: "env \<Rightarrow> string \<Rightarrow> nat \<Rightarrow> json" where
  "connectParams E authToken signedAt =
     (let payload = buildDeviceAuthPayload
            \<lparr>deviceId = IDENTITY_deviceId E, clientId = ''gateway-client'',
             clientMode = ''backend'', role = ROLE, scopes = SCOPES, signedAtMs = signedAt,
             token = Some authToken\<rparr>;
          signature = signPayload E (IDENTITY_privateKeyPem E) payload
      in JObj [(''minProtocol'', JNum 3), (''maxProtocol'', JNum 3),
               (''client'', JObj [(''id'', JStr ''gateway-client''), (''mode'', JStr ''backend''),
                                  (''version'', JStr ''1.0.0''),
                                  (''platform'', JStr (process_platform E))]),
               (''caps'', JArr []), (''commands'', JArr []),
               (''role'', JStr ROLE), (''scopes'', JArr (map JStr SCOPES)),
               (''device'', JObj [(''id'', JStr (IDENTITY_deviceId E)),
                                  (''publicKey'', JStr (publicKeyRaw E)),
                                  (''signature'', JStr signature),
                                  (''signedAt'', JNum (int signedAt))]),
               (''auth'', JObj [(''token'', JStr authToken)])])"

text \<open>
  The handler of a challenge up to its first \<^verbatim>\<open>await\<close>: the connection timer is
  cancelled, the nonce kept, and the connect request sent with the cached token when
  there is one (\<^verbatim>\<open>STORED_DEVICE_TOKEN ?? TOKEN\<close>). It returns the promise it awaits.
\<close>

definition challenge :: "env \<Rightarrow> nat \<Rightarrow> json \<Rightarrow> state \<Rightarrow> nat \<times> state" where
  "challenge E now msg st =
     (let st1 = clearTimeout connTimer st;
          st2 = st1\<lparr>connectNonce := or_null (opt (own msg ''data'') ''nonce'')\<rparr>;
          authToken = (case STORED_DEVICE_TOKEN E of None \<Rightarrow> TOKEN E | Some t \<Rightarrow> t)
      in sendReq ''connect'' (connectParams E authToken now) st2)"

text \<open>\<^verbatim>\<open>s.includes(sub)\<close>\<close>

fun str_includes :: "string \<Rightarrow> string \<Rightarrow> bool" where
  "str_includes [] sub = (sub = [])"
| "str_includes (c # cs) sub = (take (length sub) (c # cs) = sub \<or> str_includes cs sub)"

text \<open>\<^verbatim>\<open>e.message\<close> of a value that was thrown, and its text in a concatenation.\<close>

fun message_of :: "jsval \<Rightarrow> string option" where
  "message_of (Error m) = Some m"
| "message_of (Data j) = None"

definition message_text :: "jsval \<Rightarrow> string" where
  "message_text e = (case message_of e of None \<Rightarrow> ''undefined'' | Some m \<Rightarrow> m)"

definition stale :: "jsval \<Rightarrow> bool" where
  "stale e =
     (case message_of e of
        None \<Rightarrow> False
      | Some m \<Rightarrow> str_includes m ''device_token_mismatch'' \<or> str_includes m ''unauthorized'')"

text \<open>Truthiness of a string that may be \<^verbatim>\<open>null\<close>.\<close>

definition truthy_token :: "string option \<Rightarrow> bool" where
  "truthy_token t = (case t of None \<Rightarrow> False | Some s \<Rightarrow> s \<noteq> [])"

text \<open>The dash of the two messages, U+2014, in UTF-8.\<close>

definition em_dash :: string where
  "em_dash = [CHR 0xE2, CHR 0x80, CHR 0x94]"

text \<open>The value an \<^verbatim>\<open>await\<close> returns when the promise is fulfilled with \<open>v\<close>.\<close>

fun data_of :: "jsval \<Rightarrow> json option" where
  "data_of (Data j) = j"
| "data_of (Error m) = None"

text \<open>
  \<^verbatim>\<open>if (connectResult?.auth?.deviceToken) storeDeviceToken(...)\<close>; the store can raise.
\<close>

definition store_issued_token :: "env \<Rightarrow> nat \<Rightarrow> json option \<Rightarrow> state \<Rightarrow> js_error + state" where
  "store_issued_token E now connectResult st =
     (let deviceToken = opt (opt connectResult ''auth'') ''deviceToken'';
          scopes' = opt (opt connectResult ''auth'') ''scopes''
      in if truthy deviceToken
         then (case storeDeviceToken (deviceAuthFile st) (IDENTITY_deviceId E) ROLE
                      (the deviceToken)
                      (if nullish scopes' then JArr (map JStr SCOPES) else the scopes') now of
                 Inl err \<Rightarrow> Inl err
               | Inr f \<Rightarrow> Inr (st\<lparr>deviceAuthFile := f\<rparr>))
         else Inr st)"

text \<open>
  What the handler of a challenge does after a step: it awaits the retried connect
  request, it goes on to \<^verbatim>\<open>runCommand\<close>, or the process has ended.
\<close>

datatype continuation = AwaitRetry nat | RunCommand | Ended

text \<open>The \<^verbatim>\<open>catch (e)\<close> block of the first attempt, up to the \<^verbatim>\<open>await\<close> of the retry.\<close>

definition connect_failed :: "env \<Rightarrow> nat \<Rightarrow> jsval \<Rightarrow> state \<Rightarrow> continuation \<times> state" where
  "connect_failed E now e st =
     (if truthy_token (STORED_DEVICE_TOKEN E) \<and> stale e
      then let st1 = st\<lparr>deviceAuthFile := unlinkSync (deviceAuthFile st)\<rparr>;
               st2 = st1\<lparr>stderr := stderr st1 @
                       [''Warning: Stored device token expired, retrying with gateway token...'']\<rparr>;
               (p, st3) = sendReq ''connect'' (connectParams E (TOKEN E) now) st2
           in (AwaitRetry p, st3)
      else (Ended, die (''Error: Authentication failed '' @ em_dash @ '' '' @ message_text e)
                     EXIT_AUTH st))"

text \<open>The handler resumes after \<^verbatim>\<open>await sendReq("connect", connectParams)\<close>.\<close>

definition after_connect :: "env \<Rightarrow> nat \<Rightarrow> awaited \<Rightarrow> state \<Rightarrow> continuation \<times> state" where
  "after_connect E now r st =
     (case r of
        Fulfilled connectResult \<Rightarrow>
          (case store_issued_token E now (data_of connectResult) st of
             Inl err \<Rightarrow> connect_failed E now (Error (native_message E err)) st
           | Inr st1 \<Rightarrow> (RunCommand, st1\<lparr>authenticated := True\<rparr>))
      | Rejected e \<Rightarrow> connect_failed E now e st)"

text \<open>The handler resumes after \<^verbatim>\<open>await sendReq("connect", retryParams)\<close>.\<close>

definition after_retry :: "env \<Rightarrow> nat \<Rightarrow> awaited \<Rightarrow> state \<Rightarrow> continuation \<times> state" where
  "after_retry E now r st =
     (let failed = (\<lambda>retryErr.
            (Ended, die (''Error: Authentication failed after retry '' @ em_dash @ '' ''
                          @ message_text retryErr) EXIT_AUTH st))
      in case r of
           Fulfilled retryResult \<Rightarrow>
             (case store_issued_token E now (data_of retryResult) st of
                Inl err \<Rightarrow> failed (Error (native_message E err))
              | Inr st1 \<Rightarrow> (RunCommand, st1\<lparr>authenticated := True\<rparr>))
         | Rejected retryErr \<Rightarrow> failed retryErr)"


text \<open>The tokens of the connect requests sent so far, in order.\<close>

definition connect_tokens :: "state \<Rightarrow> json option list" where
  "connect_tokens st =
     map (\<lambda>frame. opt (opt (own frame ''params'') ''auth'') ''token'')
       (filter (\<lambda>frame. own frame ''method'' = Some (JStr ''connect'')) (sent st))"

section \<open>Commands\<close>

text \<open>\<^verbatim>\<open>runSend\<close> up to its \<^verbatim>\<open>await\<close>, and from there on with the value it received.\<close>

definition runSend :: "env \<Rightarrow> string \<Rightarrow> state \<Rightarrow> nat \<times> state" where
  "runSend E uuid st =
     sendReq ''chat.send''
       (JObj [(''sessionKey'', JStr (sessionKey E)), (''message'', JStr (message E)),
              (''idempotencyKey'', JStr uuid)]) st"

text \<open>
  The result is \<open>Inl v\<close> when \<^verbatim>\<open>runSend\<close> returns the value \<open>v\<close>, and \<open>Inr p\<close> when it
  returns the promise \<open>p\<close> of the completion wait.
\<close>

definition runSend_resumed :: "env \<Rightarrow> json option \<Rightarrow> state \<Rightarrow> (jsval + nat) \<times> state" where
  "runSend_resumed E sendResult st =
     (let st1 = st\<lparr>sendRunId := opt sendResult ''runId''\<rparr>
      in if \<not> truthy (sendRunId st1) then (Inl (Data sendResult), st1)
         else let p = promise_count st1;
                  st2 = st1\<lparr>promise_count := p + 1\<rparr>;
                  (t, st3) = setTimeout (SendTimeout (Resolve p)) (SEND_TIMEOUT E) st2
              in (Inr p,
                  st3\<lparr>pending :=
                        AList.update ''send-wait''
                          \<lparr>resolve = Resolve p, reject = Resolve p, timer = t\<rparr>
                          (pending st3)\<rparr>))"

text \<open>
  \<^verbatim>\<open>runCommand\<close> once the promise it awaits has settled, with the \<^verbatim>\<open>cleanup(0)\<close> that
  follows its return.
\<close>

definition runCommand_settled :: "awaited \<Rightarrow> state \<Rightarrow> state" where
  "runCommand_settled r st =
     (case r of
        Fulfilled result \<Rightarrow> cleanup 0 (st\<lparr>stdout := stdout st @ [result]\<rparr>)
      | Rejected e \<Rightarrow>
          cleanup EXIT_OP (st\<lparr>stderr := stderr st @ [''Error: '' @ message_text e]\<rparr>))"

section \<open>Dispatch\<close>

text \<open>
  \<^verbatim>\<open>ws.onmessage\<close> on a frame, \<open>None\<close> when the text does not parse. Reading
  \<^verbatim>\<open>msg.type\<close> of \<^verbatim>\<open>null\<close> raises inside the handler, which nothing catches: the process
  ends with status 1.
\<close>

definition is_challenge :: "json \<Rightarrow> bool" where
  "is_challenge msg \<longleftrightarrow>
     own msg ''type'' = Some (JStr ''event'') \<and> own msg ''event'' = Some (JStr ''connect.challenge'')"

definition lifecycle_end :: "json \<Rightarrow> state \<Rightarrow> bool" where
  "lifecycle_end msg st \<longleftrightarrow>
     truthy (sendRunId st) \<and> own msg ''type'' = Some (JStr ''event'')
     \<and> own msg ''event'' = Some (JStr ''agent'')
     \<and> opt (own msg ''data'') ''stream'' = Some (JStr ''lifecycle'')
     \<and> opt (own msg ''data'') ''phase'' = Some (JStr ''end'')
     \<and> strict_eq (opt (own msg ''data'') ''runId'') (sendRunId st)"

definition onmessage :: "env \<Rightarrow> nat \<Rightarrow> json option \<Rightarrow> state \<Rightarrow> state" where
  "onmessage E now frame st =
     (case frame of
        None \<Rightarrow> st\<lparr>stderr := stderr st @ [''Error: Received malformed message from gateway'']\<rparr>
      | Some msg \<Rightarrow>
          if msg = JNull then st\<lparr>exited := Some 1\<rparr>
          else if is_challenge msg then snd (challenge E now msg st)
          else if own msg ''type'' = Some (JStr ''res'') then handleResponse E msg st
          else if lifecycle_end msg st
          then (case map_of (pending st) ''send-wait'' of
                  None \<Rightarrow> st
                | Some entry \<Rightarrow>
                    let st1 = clearTimeout (timer entry) st;
                        st2 = st1\<lparr>pending := AList.delete ''send-wait'' (pending st1)\<rparr>
                    in call (resolve entry) (run_status (sendRunId st2) ''completed'') st2)
          else st)"

text \<open>
  Everything that runs between two turns of the event loop: a handler of the socket, a
  timer, a signal, or the script resuming after an \<^verbatim>\<open>await\<close>. Nothing runs once the
  process has exited.
\<close>

datatype action =
    Message nat "json option"
  | Close
  | TransportError
  | Timer nat
  | Signal
  | Request string json
  | ConnectSettled nat awaited
  | RetrySettled nat awaited
  | SendSettled "json option"
  | CommandSettled awaited

definition step :: "env \<Rightarrow> action \<Rightarrow> state \<Rightarrow> state" where
  "step E a st =
     (if exited st \<noteq> None then st
      else case a of
             Message now frame \<Rightarrow> onmessage E now frame st
           | Close \<Rightarrow> onclose (st\<lparr>readyState := CLOSED\<rparr>)
           | TransportError \<Rightarrow> onerror E st
           | Timer t \<Rightarrow> fire E t st
           | Signal \<Rightarrow> signal st
           | Request method params \<Rightarrow> snd (sendReq method params st)
           | ConnectSettled now r \<Rightarrow> snd (after_connect E now r st)
           | RetrySettled now r \<Rightarrow> snd (after_retry E now r st)
           | SendSettled sendResult \<Rightarrow> snd (runSend_resumed E sendResult st)
           | CommandSettled r \<Rightarrow> runCommand_settled r st)"

definition run :: "env \<Rightarrow> action list \<Rightarrow> state \<Rightarrow> state" where
  "run E acts st = fold (step E) acts st"

section \<open>Well-formed records and sample values\<close>

text \<open>
  A record as \<^verbatim>\<open>storeDeviceToken\<close> writes it: when the file holds a record of the
  identifier, its \<^verbatim>\<open>tokens\<close> property is an object, or is missing or \<^verbatim>\<open>null\<close>.
  \<open>current_tokens\<close> is the mapping such a record holds.
\<close>

definition tokens_well_formed :: "auth_file \<Rightarrow> string \<Rightarrow> bool" where
  "tokens_well_formed f deviceId' =
     (case opt (existing_record f deviceId') ''tokens'' of
        None \<Rightarrow> True
      | Some JNull \<Rightarrow> True
      | Some (JObj kvs) \<Rightarrow> True
      | Some _ \<Rightarrow> False)"

definition current_tokens :: "auth_file \<Rightarrow> string \<Rightarrow> (string \<times> json) list" where
  "current_tokens f deviceId' =
     (case opt (existing_record f deviceId') ''tokens'' of
        Some (JObj kvs) \<Rightarrow> kvs
      | _ \<Rightarrow> [])"

text \<open>
  An environment and a cache file with two roles, for concrete runs. The stand-in for
  \<^verbatim>\<open>JSON.stringify\<close> is right on strings that need no escape.
\<close>

definition demo_env :: env where
  "demo_env = \<lparr>IDENTITY_deviceId = ''dev1'', IDENTITY_privateKeyPem = ''private-key'',
     publicKeyRaw = ''public-key'', TOKEN = ''gateway-token'',
     STORED_DEVICE_TOKEN = Some ''cached-token'', SEND_TIMEOUT = 120000,
     url = ''ws://127.0.0.1:18789'', process_platform = ''linux'',
     sessionKey = ''agent:main:main'', message = ''hello'',
     signPayload = (\<lambda>key payload. ''signature''),
     JSON_stringify = (\<lambda>j. case j of JStr s \<Rightarrow> CHR 0x22 # s @ [CHR 0x22] | _ \<Rightarrow> ''{}''),
     native_message = (\<lambda>err. ''TypeError'')\<rparr>"

definition demo_file :: auth_file where
  "demo_file = Content (JObj [(''version'', JNum 1), (''deviceId'', JStr ''dev1''),
     (''tokens'', JObj [(''viewer'', JObj [(''token'', JStr ''viewer-token'')]),
                        (''operator'', JObj [(''token'', JStr ''cached-token'')])])])"

text \<open>
  Three states of a run: after the challenge was answered (the cache file holds two
  roles), with one request pending, and with the completion wait of a send pending.
\<close>

definition demo_challenge :: json where
  "demo_challenge =
     JObj [(''type'', JStr ''event''), (''event'', JStr ''connect.challenge''),
           (''data'', JObj [(''nonce'', JStr ''abc'')])]"

definition demo_challenged :: state where
  "demo_challenged = snd (challenge demo_env 1700000000000 demo_challenge (init demo_file))"

definition demo_call :: state where
  "demo_call =
     snd (sendReq ''status'' (JObj []) ((init Absent)\<lparr>authenticated := True, readyState := 1\<rparr>))"

definition demo_waiting :: state where
  "demo_waiting =
     snd (runSend_resumed demo_env (Some (JObj [(''runId'', JStr ''r1'')]))
            ((init Absent)\<lparr>authenticated := True, readyState := 1\<rparr>))"

section \<open>Invariants of the table\<close>

text \<open>The promises an entry and a timer callback can settle.\<close>

definition entry_promises :: "entry \<Rightarrow> nat set" where
  "entry_promises e = {promise_of (resolve e), promise_of (reject e)}"

fun callback_promises :: "callback \<Rightarrow> nat set" where
  "callback_promises (RequestTimeout id' method k) = {promise_of k}"
| "callback_promises (SendTimeout k) = {promise_of k}"
| "callback_promises ConnectionTimeout = {}"

text \<open>
  A promise is referenced when an entry of the table or an armed timer holds one of its
  settling functions; it is quiet when it exists and nothing references it.
\<close>

definition referenced :: "nat \<Rightarrow> state \<Rightarrow> bool" where
  "referenced p st \<longleftrightarrow>
     (\<exists>(k, e) \<in> set (pending st). p \<in> entry_promises e)
   \<or> (\<exists>(t, d, cb) \<in> set (timers st). p \<in> callback_promises cb)"

definition quiet :: "nat \<Rightarrow> state \<Rightarrow> bool" where
  "quiet p st \<longleftrightarrow> p < promise_count st \<and> \<not> referenced p st"

text \<open>
  Two ways a step changes the state. It shrinks it: entries and timers only go away, and
  every settling function it calls was referenced. Or, more generally, it evolves it:
  what is referenced afterwards was referenced before or is new, and so is every
  promise it settles.
\<close>

definition shrinks :: "state \<Rightarrow> state \<Rightarrow> bool" where
  "shrinks st st' \<longleftrightarrow>
     set (pending st') \<subseteq> set (pending st) \<and> set (timers st') \<subseteq> set (timers st)
   \<and> promise_count st' = promise_count st \<and> timer_count st' = timer_count st
   \<and> (\<exists>new. settled st' = settled st @ new
          \<and> (\<forall>(k, v) \<in> set new. referenced (promise_of k) st))"

definition evolves :: "state \<Rightarrow> state \<Rightarrow> bool" where
  "evolves st st' \<longleftrightarrow>
     promise_count st \<le> promise_count st'
   \<and> (\<forall>p. referenced p st' \<longrightarrow> referenced p st \<or> promise_count st \<le> p)
   \<and> (\<exists>new. settled st' = settled st @ new
          \<and> (\<forall>(k, v) \<in> set new. referenced (promise_of k) st \<or> promise_count st \<le> promise_of k))"

text \<open>
  The invariant of every reachable state: the timers and promises that the table, the
  armed timers and the calls made so far mention have been allocated.
\<close>

definition wf :: "state \<Rightarrow> bool" where
  "wf st \<longleftrightarrow>
     (\<forall>(k, e) \<in> set (pending st). timer e < timer_count st
         \<and> (\<forall>p \<in> entry_promises e. p < promise_count st))
   \<and> (\<forall>(t, d, cb) \<in> set (timers st). t < timer_count st
         \<and> (\<forall>p \<in> callback_promises cb. p < promise_count st))
   \<and> (\<forall>(k, v) \<in> set (settled st). promise_of k < promise_count st)"

text \<open>
  The request number \<open>n\<close> is outstanding: the process runs, the table holds its entry
  under the id \<open>String_num n\<close>, with the promise \<open>p\<close> and the armed timer \<open>t\<close>, nothing
  has settled \<open>p\<close>, and no other entry or timer can.
\<close>

definition outstanding :: "nat \<Rightarrow> nat \<Rightarrow> nat \<Rightarrow> string \<Rightarrow> state \<Rightarrow> bool" where
  "outstanding n p t method st \<longleftrightarrow>
     exited st = None \<and> n \<le> msgId st \<and> p < promise_count st \<and> t < timer_count st
   \<and> map_of (pending st) (String_num n) = Some \<lparr>resolve = Resolve p, reject = Reject p, timer = t\<rparr>
   \<and> map_of (timers st) t
        = Some (OPERATION_TIMEOUT, RequestTimeout (String_num n) method (Reject p))
   \<and> calls_on p (settled st) = []
   \<and> (\<forall>(k, e) \<in> set (pending st). k \<noteq> String_num n \<longrightarrow> p \<notin> entry_promises e \<and> timer e \<noteq> t)
   \<and> (\<forall>(t', d, cb) \<in> set (timers st). t' \<noteq> t \<longrightarrow> p \<notin> callback_promises cb)"

text \<open>
  What may happen while request \<open>n\<close> waits, other than its own response, its timeout
  and the end of the connection: frames that do not parse, responses that carry another
  id, events of any kind but a challenge, further requests, and \<^verbatim>\<open>runSend\<close> resuming.
\<close>

fun other_traffic :: "nat \<Rightarrow> action \<Rightarrow> bool" where
  "other_traffic n (Message now None) = True"
| "other_traffic n (Message now (Some msg)) =
     (msg \<noteq> JNull \<and> \<not> is_challenge msg
      \<and> \<not> (own msg ''type'' = Some (JStr ''res'')
             \<and> own msg ''id'' = Some (JStr (String_num n))))"
| "other_traffic n (Request method params) = True"
| "other_traffic n (SendSettled sendResult) = True"
| "other_traffic n _ = False"

text \<open>
  An agent event that ends the run \<open>runId\<close>: a lifecycle event of phase \<^verbatim>\<open>end\<close> whose run
  identifier is the given one. And a frame that is no such event, no challenge and no
  response: among them every lifecycle event with another run identifier.
\<close>

definition terminal_event :: "json option \<Rightarrow> json \<Rightarrow> bool" where
  "terminal_event runId msg \<longleftrightarrow>
     own msg ''type'' = Some (JStr ''event'') \<and> own msg ''event'' = Some (JStr ''agent'')
   \<and> opt (own msg ''data'') ''stream'' = Some (JStr ''lifecycle'')
   \<and> opt (own msg ''data'') ''phase'' = Some (JStr ''end'')
   \<and> strict_eq (opt (own msg ''data'') ''runId'') runId"

fun other_event :: "json option \<Rightarrow> action \<Rightarrow> bool" where
  "other_event runId (Message now (Some msg)) =
     (msg \<noteq> JNull \<and> \<not> is_challenge msg \<and> own msg ''type'' \<noteq> Some (JStr ''res'')
      \<and> \<not> terminal_event runId msg)"
| "other_event runId _ = False"

text \<open>Frames of the gateway, and the traffic of a run with two requests.\<close>

definition demo_response :: "string \<Rightarrow> json \<Rightarrow> json" where
  "demo_response id' payload =
     JObj [(''type'', JStr ''res''), (''id'', JStr id'), (''ok'', JBool True), (''payload'', payload)]"

definition demo_failure :: "string \<Rightarrow> json \<Rightarrow> json" where
  "demo_failure id' err =
     JObj [(''type'', JStr ''res''), (''id'', JStr id'), (''ok'', JBool False), (''error'', err)]"

definition demo_lifecycle :: "string \<Rightarrow> string \<Rightarrow> json" where
  "demo_lifecycle phase runId =
     JObj [(''type'', JStr ''event''), (''event'', JStr ''agent''),
           (''data'', JObj [(''stream'', JStr ''lifecycle''), (''phase'', JStr phase),
                            (''runId'', JStr runId)])]"

text \<open>
  A second request is issued, its response and an agent event arrive, all before the
  response to the first.
\<close>

definition demo_traffic :: "action list" where
  "demo_traffic =
     [Request ''sessions.list'' (JObj []),
      Message 5 (Some (demo_response ''2'' (JObj [(''sessions'', JArr [])]))),
      Message 6 (Some (demo_lifecycle ''end'' ''r9''))]"

section \<open>Properties of the canonical payload\<close>

lemma digit_value_digit: "d < 10 \<Longrightarrow> digit_value (digit d) = d"
proof -
  assume "d < 10"
  then have "d \<in> {0, 1, 2, 3, 4, 5, 6, 7, 8, 9}"
    by auto
  then show ?thesis
    by (auto simp add: digit_def digit_value_def)
qed

lemma decimal_value_snoc:
  "decimal_value (s @ [c]) = 10 * decimal_value s + digit_value c"
  by (simp add: decimal_value_def)

lemma decimal_value_String_num: "decimal_value (String_num n) = n"
proof (induction n rule: String_num.induct)
  case (1 n)
  show ?case
  proof (cases "n < 10")
    case True
    then show ?thesis
      by (simp add: String_num.simps [of n] decimal_value_def digit_value_digit)
  next
    case False
    with "1" have "decimal_value (String_num (n div 10)) = n div 10"
      by simp
    with False show ?thesis
      by (simp add: String_num.simps [of n] decimal_value_snoc digit_value_digit)
  qed
qed

lemma String_num_inj: "String_num m = String_num n \<Longrightarrow> m = n"
  by (metis decimal_value_String_num)

lemma String_num_digits: "set (String_num n) \<subseteq> set ''0123456789''"
proof (induction n rule: String_num.induct)
  case (1 n)
  have d: "digit k \<in> set ''0123456789''" if "k < 10" for k
  proof -
    from that have "k \<in> {0, 1, 2, 3, 4, 5, 6, 7, 8, 9}" by auto
    then show ?thesis by (auto simp: digit_def)
  qed
  show ?case
  proof (cases "n < 10")
    case True
    then show ?thesis
      using d [of n] by (simp add: String_num.simps [of n])
  next
    case False
    then show ?thesis
      using "1" d [of "n mod 10"] by (simp add: String_num.simps [of n])
  qed
qed

lemma String_num_nonempty: "String_num n \<noteq> []"
  by (subst String_num.simps) simp

lemma digit_nonzero: "0 < d \<Longrightarrow> d < 10 \<Longrightarrow> digit d \<noteq> CHR ''0''"
proof -
  assume "0 < d" "d < 10"
  then have "d \<in> {1, 2, 3, 4, 5, 6, 7, 8, 9}" by auto
  then show ?thesis by (auto simp: digit_def)
qed

lemma String_num_no_leading_zero: "0 < n \<Longrightarrow> hd (String_num n) \<noteq> CHR ''0''"
proof (induction n rule: String_num.induct)
  case (1 n)
  show ?case
  proof (cases "n < 10")
    case True
    with "1.prems" show ?thesis
      by (simp add: String_num.simps [of n] digit_nonzero)
  next
    case False
    then have "0 < n div 10" by simp
    with "1.IH" False have "hd (String_num (n div 10)) \<noteq> CHR ''0''" by simp
    with False show ?thesis
      by (simp add: String_num.simps [of n] String_num_nonempty)
  qed
qed

lemma String_num_canonical: "String_num n = ''0'' \<or> hd (String_num n) \<noteq> CHR ''0''"
proof (cases "n = 0")
  case True
  then show ?thesis by (simp add: String_num.simps digit_def)
next
  case False
  then show ?thesis by (simp add: String_num_no_leading_zero)
qed











lemma shortest_skip:
  assumes "\<not> reads_as x (x div 10 ^ Suc e) (Suc e)"
    and "\<not> reads_as x (x div 10 ^ Suc e + 1) (Suc e)"
  shows "shortest x (Suc e) = shortest x e"
  using assms by (simp add: shortest.simps Let_def del: power_Suc)









lemma bit_length_numeral:
  "bit_length (numeral (Num.Bit0 n)) = Suc (bit_length (numeral n))"
  "bit_length (numeral (Num.Bit1 n)) = Suc (bit_length (numeral n))"
  "bit_length 1 = Suc 0"
  "bit_length (Suc 0) = Suc 0"
  "bit_length 0 = 0"
proof -
  have "numeral (Num.Bit0 n) div (2::nat) = numeral n"
    by (simp add: numeral_Bit0_div_2)
  then show "bit_length (numeral (Num.Bit0 n)) = Suc (bit_length (numeral n))"
    by (subst bit_length.simps) simp
  have "numeral (Num.Bit1 n) div (2::nat) = numeral n"
    by (simp add: numeral_Bit1_div_2)
  then show "bit_length (numeral (Num.Bit1 n)) = Suc (bit_length (numeral n))"
    by (subst bit_length.simps) simp
  show 0: "bit_length 0 = 0"
    by (subst bit_length.simps) simp
  show "bit_length (Suc 0) = Suc 0"
    by (subst bit_length.simps) (simp add: 0)
  then show "bit_length 1 = Suc 0"
    by simp
qed

lemma shortest_nearer_hi:
  assumes "reads_as x (x div 10 ^ Suc e) (Suc e)"
    and "reads_as x (x div 10 ^ Suc e + 1) (Suc e)"
    and "(x div 10 ^ Suc e + 1) * 10 ^ Suc e - x < x - x div 10 ^ Suc e * 10 ^ Suc e"
  shows "shortest x (Suc e) = (x div 10 ^ Suc e + 1, Suc e)"
  using assms by (simp add: shortest.simps Let_def del: power_Suc)

text \<open>
  From \<open>2^53\<close> on the digits need not be those of the integer itself: \<open>2^64\<close> is
  written with the 17 digits that suffice to read it back.
\<close>

lemma Number_toString_2_64: "Number_toString 18446744073709551616 = ''18446744073709552000''"
proof -
  let ?x = "18446744073709551616 :: nat"
  note ev = reads_as_def to_Number_def bit_length_numeral Let_def
  have len: "length (String_num ?x) = 20"
    by (simp add: String_num.simps)
  have s20: "shortest ?x (Suc 19) = shortest ?x 19"
    by (rule shortest_skip) (simp_all add: ev)
  have s19: "shortest ?x (Suc 18) = shortest ?x 18"
    by (rule shortest_skip) (simp_all add: ev)
  have s18: "shortest ?x (Suc 17) = shortest ?x 17"
    by (rule shortest_skip) (simp_all add: ev)
  have s17: "shortest ?x (Suc 16) = shortest ?x 16"
    by (rule shortest_skip) (simp_all add: ev)
  have s16: "shortest ?x (Suc 15) = shortest ?x 15"
    by (rule shortest_skip) (simp_all add: ev)
  have s15: "shortest ?x (Suc 14) = shortest ?x 14"
    by (rule shortest_skip) (simp_all add: ev)
  have s14: "shortest ?x (Suc 13) = shortest ?x 13"
    by (rule shortest_skip) (simp_all add: ev)
  have s13: "shortest ?x (Suc 12) = shortest ?x 12"
    by (rule shortest_skip) (simp_all add: ev)
  have s12: "shortest ?x (Suc 11) = shortest ?x 11"
    by (rule shortest_skip) (simp_all add: ev)
  have s11: "shortest ?x (Suc 10) = shortest ?x 10"
    by (rule shortest_skip) (simp_all add: ev)
  have s10: "shortest ?x (Suc 9) = shortest ?x 9"
    by (rule shortest_skip) (simp_all add: ev)
  have s9: "shortest ?x (Suc 8) = shortest ?x 8"
    by (rule shortest_skip) (simp_all add: ev)
  have s8: "shortest ?x (Suc 7) = shortest ?x 7"
    by (rule shortest_skip) (simp_all add: ev)
  have s7: "shortest ?x (Suc 6) = shortest ?x 6"
    by (rule shortest_skip) (simp_all add: ev)
  have s6: "shortest ?x (Suc 5) = shortest ?x 5"
    by (rule shortest_skip) (simp_all add: ev)
  have s5: "shortest ?x (Suc 4) = shortest ?x 4"
    by (rule shortest_skip) (simp_all add: ev)
  have s4: "shortest ?x (Suc 3) = shortest ?x 3"
    by (rule shortest_skip) (simp_all add: ev)
  have s3: "shortest ?x (Suc 2) = (?x div 10 ^ Suc 2 + 1, Suc 2)"
    by (rule shortest_nearer_hi) (simp_all add: ev)
  have sh: "shortest ?x 20 = (18446744073709552, 3)"
    using s20 s19 s18 s17 s16 s15 s14 s13 s12 s11 s10 s9 s8 s7 s6 s5 s4 s3 by simp
  have n: "to_Number ?x = ?x"
    by (simp add: ev)
  have r: "replicate 3 (CHR ''0'') = ''000''"
    by (simp add: numeral_3_eq_3)
  show ?thesis
    unfolding Number_toString_def n Let_def len sh
    by (simp add: String_num.simps digit_def r)
qed




section \<open>Properties of the token cache\<close>

lemma well_formed_cases:
  assumes "tokens_well_formed f d"
  shows "nullish (opt (existing_record f d) ''tokens'') \<and> current_tokens f d = []
       \<or> opt (existing_record f d) ''tokens'' = Some (JObj (current_tokens f d))"
  using assms
  by (simp add: tokens_well_formed_def current_tokens_def nullish_def
      split: option.splits json.splits)

lemma stored_entry_eq:
  "stored_entry f d r =
     (if nullish (opt (existing_record f d) ''tokens'') then None
      else member (the (opt (existing_record f d) ''tokens'')) r)"
  by (simp add: stored_entry_def existing_record_def opt_def nullish_def split: auth_file.splits)

lemma stored_entry_current:
  assumes "tokens_well_formed f d"
  shows "stored_entry f d r = map_of (current_tokens f d) r"
  using well_formed_cases [OF assms]
  by (auto simp: stored_entry_eq nullish_def)

lemma store_result:
  assumes "role' \<noteq> ''__proto__''" and "tokens_well_formed f d"
  shows "storeDeviceToken f d role' tok sc now =
           Inr (Content (JObj [(''version'', JNum 1), (''deviceId'', JStr d),
              (''tokens'', JObj (AList.update role'
                 (JObj [(''token'', tok), (''role'', JStr role'), (''scopes'', sc),
                        (''updatedAtMs'', JNum (int now))]) (current_tokens f d)))]))"
  using well_formed_cases [OF assms(2)] assms(1)
  by (auto simp: storeDeviceToken_def Let_def nullish_def)

lemma stored_entry_written:
  "stored_entry (Content (JObj [(''version'', JNum 1), (''deviceId'', JStr d),
              (''tokens'', JObj kvs)])) d r = map_of kvs r"
  by (simp add: stored_entry_def is_record_of_def nullish_def)

lemma load_via_entry:
  "loadStoredDeviceToken f d r = or_null (opt (stored_entry f d r) ''token'')"
  by (simp add: loadStoredDeviceToken_def stored_entry_def is_record_of_def opt_def or_null_def
      nullish_def split: auth_file.splits)

lemma array_index_operator: "array_index ''operator'' = None"
  by (simp add: array_index_def decimal_value_def digit_value_def String_num.simps digit_def)

text \<open>
  C8, as stated, fails, in three ways. For the role \<^verbatim>\<open>__proto__\<close> and no cache file,
  the assignment \<^verbatim>\<open>store.tokens[role] = ...\<close> goes to the prototype setter: the store
  succeeds, the record it writes has no entry, and loading the role returns \<^verbatim>\<open>null\<close>.
  For the role \<^verbatim>\<open>operator\<close> and a record of the identifier whose \<^verbatim>\<open>tokens\<close> is an
  array, the assignment makes a property that is not written to the file: the store
  succeeds and loading the role returns \<^verbatim>\<open>null\<close>. For a record whose \<^verbatim>\<open>tokens\<close> is a
  string, the assignment raises, nothing is written, and loading the role returns
  \<^verbatim>\<open>null\<close>.
\<close>

theorem store_then_load_counterexample:
  "storeDeviceToken Absent ''dev1'' ''__proto__'' (JStr ''fresh-token'')
       (JArr [JStr ''operator.read'']) 1700000000000
     = Inr (Content (JObj [(''version'', JNum 1), (''deviceId'', JStr ''dev1''),
                           (''tokens'', JObj [])]))
   \<and> loadStoredDeviceToken
       (Content (JObj [(''version'', JNum 1), (''deviceId'', JStr ''dev1''),
                       (''tokens'', JObj [])])) ''dev1'' ''__proto__'' = None
   \<and> storeDeviceToken
       (Content (JObj [(''version'', JNum 1), (''deviceId'', JStr ''dev1''),
                       (''tokens'', JArr [])])) ''dev1'' ''operator'' (JStr ''fresh-token'')
       (JArr [JStr ''operator.read'']) 1700000000000
     = Inr (Content (JObj [(''version'', JNum 1), (''deviceId'', JStr ''dev1''),
                           (''tokens'', JArr [])]))
   \<and> loadStoredDeviceToken
       (Content (JObj [(''version'', JNum 1), (''deviceId'', JStr ''dev1''),
                       (''tokens'', JArr [])])) ''dev1'' ''operator'' = None
   \<and> storeDeviceToken
       (Content (JObj [(''version'', JNum 1), (''deviceId'', JStr ''dev1''),
                       (''tokens'', JStr ''none'')])) ''dev1'' ''operator'' (JStr ''fresh-token'')
       (JArr [JStr ''operator.read'']) 1700000000000
     = Inl TypeError
   \<and> loadStoredDeviceToken
       (Content (JObj [(''version'', JNum 1), (''deviceId'', JStr ''dev1''),
                       (''tokens'', JStr ''none'')])) ''dev1'' ''operator'' = None"
  by (simp add: storeDeviceToken_def existing_record_def is_record_of_def opt_def nullish_def
      loadStoredDeviceToken_def or_null_def array_index_operator)

text \<open>
  C8, as amended. For every identifier, every role other than the reserved property
  name \<^verbatim>\<open>__proto__\<close>, every token and every scope list, on a cache file that is missing,
  unreadable, the record of another identity or version, or a record whose \<^verbatim>\<open>tokens\<close> is
  a mapping (or absent): the store succeeds; loading the role afterwards returns the
  token; the entry holds the scopes; the file is again such a record; and for every
  other role the entry and the loaded token are what they were before the store.
\<close>

theorem store_then_load:
  assumes "role' \<noteq> ''__proto__''" and "tokens_well_formed f d"
  shows "case storeDeviceToken f d role' (JStr tok) sc now of
           Inl err \<Rightarrow> False
         | Inr f' \<Rightarrow>
             loadStoredDeviceToken f' d role' = Some (JStr tok)
           \<and> opt (stored_entry f' d role') ''scopes'' = Some sc
           \<and> tokens_well_formed f' d
           \<and> (\<forall>r. r \<noteq> role' \<longrightarrow> stored_entry f' d r = stored_entry f d r
                  \<and> loadStoredDeviceToken f' d r = loadStoredDeviceToken f d r)"
  by (simp add: store_result [OF assms] stored_entry_written load_via_entry
      stored_entry_current [OF assms(2)] update_conv' opt_def or_null_def nullish_def
      tokens_well_formed_def existing_record_def is_record_of_def)

theorem store_then_load_witness:
  "loadStoredDeviceToken
     (projr (storeDeviceToken demo_file ''dev1'' ''operator'' (JStr ''fresh-token'')
               (JArr [JStr ''operator.read'']) 1700000000000)) ''dev1'' ''operator''
     = Some (JStr ''fresh-token'')
   \<and> loadStoredDeviceToken
     (projr (storeDeviceToken demo_file ''dev1'' ''operator'' (JStr ''fresh-token'')
               (JArr [JStr ''operator.read'']) 1700000000000)) ''dev1'' ''viewer''
     = Some (JStr ''viewer-token'')
   \<and> loadStoredDeviceToken demo_file ''dev1'' ''viewer'' = Some (JStr ''viewer-token'')"
proof -
  have h1: "''operator'' \<noteq> ''__proto__''"
    by simp
  have h2: "tokens_well_formed demo_file ''dev1''"
    by (simp add: tokens_well_formed_def demo_file_def existing_record_def is_record_of_def opt_def)
  have h3: "''viewer'' \<noteq> ''operator''"
    by simp
  have h4: "loadStoredDeviceToken demo_file ''dev1'' ''viewer'' = Some (JStr ''viewer-token'')"
    by (simp add: loadStoredDeviceToken_def demo_file_def nullish_def opt_def or_null_def)
  show ?thesis
    using store_then_load [OF h1 h2, of "''fresh-token''" "JArr [JStr ''operator.read'']" 1700000000000]
      h3 h4
    by (auto split: sum.splits)
qed

section \<open>The handlers as state updates\<close>

lemma sendReq_eq:
  "sendReq method params st =
     (promise_count st,
      st\<lparr>msgId := msgId st + 1,
         promise_count := promise_count st + 1,
         timers := timers st @ [(timer_count st, OPERATION_TIMEOUT,
                     RequestTimeout (String_num (msgId st + 1)) method (Reject (promise_count st)))],
         timer_count := timer_count st + 1,
         pending := AList.update (String_num (msgId st + 1))
                      \<lparr>resolve = Resolve (promise_count st), reject = Reject (promise_count st),
                       timer = timer_count st\<rparr> (pending st),
         sent := sent st @ [request_frame (String_num (msgId st + 1)) method params]\<rparr>)"
  by (simp add: sendReq_def setTimeout_def Let_def)

lemma runSend_resumed_eq:
  "runSend_resumed E sendResult st =
     (if \<not> truthy (opt sendResult ''runId'')
      then (Inl (Data sendResult), st\<lparr>sendRunId := opt sendResult ''runId''\<rparr>)
      else (Inr (promise_count st),
            st\<lparr>sendRunId := opt sendResult ''runId'',
               promise_count := promise_count st + 1,
               timers := timers st @ [(timer_count st, SEND_TIMEOUT E,
                             SendTimeout (Resolve (promise_count st)))],
               timer_count := timer_count st + 1,
               pending := AList.update ''send-wait''
                      \<lparr>resolve = Resolve (promise_count st), reject = Resolve (promise_count st),
                       timer = timer_count st\<rparr> (pending st)\<rparr>))"
  by (simp add: runSend_resumed_def setTimeout_def Let_def)

lemma agent_event:
  assumes "own msg ''type'' = Some (JStr ''event'')" and "own msg ''event'' = Some (JStr ''agent'')"
  shows "onmessage E now (Some msg) st =
     (if lifecycle_end msg st
      then (case map_of (pending st) ''send-wait'' of
                  None \<Rightarrow> st
                | Some entry \<Rightarrow>
                    call (resolve entry) (run_status (sendRunId st) ''completed'')
                      ((clearTimeout (timer entry) st)
                         \<lparr>pending := AList.delete ''send-wait'' (pending st)\<rparr>))
      else st)"
  using assms
  by (auto simp: onmessage_def is_challenge_def clearTimeout_def Let_def split: option.splits)

lemma onmessage_plain:
  assumes "msg \<noteq> JNull" and "\<not> is_challenge msg"
  shows "onmessage E now (Some msg) st =
     (if own msg ''type'' = Some (JStr ''res'') then handleResponse E msg st
      else if lifecycle_end msg st
      then (case map_of (pending st) ''send-wait'' of
                  None \<Rightarrow> st
                | Some entry \<Rightarrow>
                    call (resolve entry) (run_status (sendRunId st) ''completed'')
                      ((clearTimeout (timer entry) st)
                         \<lparr>pending := AList.delete ''send-wait'' (pending st)\<rparr>))
      else st)"
  using assms
  by (auto simp: onmessage_def clearTimeout_def Let_def split: option.splits)

lemma filter_delete_timers:
  "filter (\<lambda>(t, d). t \<notin> (\<lambda>(k, e). timer e) ` set xs) (AList.delete (timer e') ts)
     = filter (\<lambda>(t, d). t \<notin> (\<lambda>(k, e). timer e) ` set ((k', e') # xs)) ts"
  by (auto simp: AList.delete_eq intro: filter_cong)

lemma fold_clearTimeout:
  "fold (\<lambda>(id', entry). clearTimeout (timer entry)) xs s =
     s\<lparr>timers := filter (\<lambda>(t, d). t \<notin> (\<lambda>(k, e). timer e) ` set xs) (timers s)\<rparr>"
proof (induction xs arbitrary: s)
  case Nil
  then show ?case by simp
next
  case (Cons x xs)
  obtain k e where x: "x = (k, e)" by (cases x)
  have "fold (\<lambda>(id', entry). clearTimeout (timer entry)) (x # xs) s
      = fold (\<lambda>(id', entry). clearTimeout (timer entry)) xs (clearTimeout (timer e) s)"
    by (simp add: x)
  also have "\<dots> = (clearTimeout (timer e) s)
      \<lparr>timers := filter (\<lambda>(t, d). t \<notin> (\<lambda>(k, e). timer e) ` set xs)
                   (timers (clearTimeout (timer e) s))\<rparr>"
    by (rule Cons.IH)
  also have "\<dots> = s\<lparr>timers := filter (\<lambda>(t, d). t \<notin> (\<lambda>(k, e). timer e) ` set (x # xs)) (timers s)\<rparr>"
    unfolding x clearTimeout_def by (simp add: filter_delete_timers [of xs e _ k] del: set_simps)
  finally show ?case .
qed

lemma cleanup_eq:
  "cleanup code st =
     st\<lparr>timers := filter (\<lambda>(t, d). t \<notin> (\<lambda>(k, e). timer e) ` set (pending st)) (timers st),
        pending := [],
        readyState := (if readyState st < CLOSING then CLOSING else readyState st),
        exited := Some code\<rparr>"
  by (auto simp: cleanup_def fold_clearTimeout ws_close_def Let_def)

lemma fold_reject_all:
  "fold (\<lambda>(id', entry) s. call (reject entry) v (clearTimeout (timer entry) s)) xs s =
     s\<lparr>timers := filter (\<lambda>(t, d). t \<notin> (\<lambda>(k, e). timer e) ` set xs) (timers s),
       settled := settled s @ map (\<lambda>(k, e). (reject e, v)) xs\<rparr>"
proof (induction xs arbitrary: s)
  case Nil
  then show ?case by simp
next
  case (Cons x xs)
  obtain k e where x: "x = (k, e)" by (cases x)
  let ?F = "\<lambda>(id', entry) s. call (reject entry) v (clearTimeout (timer entry) s)"
  let ?s1 = "call (reject e) v (clearTimeout (timer e) s)"
  have "fold ?F (x # xs) s = fold ?F xs ?s1"
    by (simp add: x)
  also have "\<dots> = ?s1\<lparr>timers := filter (\<lambda>(t, d). t \<notin> (\<lambda>(k, e). timer e) ` set xs) (timers ?s1),
       settled := settled ?s1 @ map (\<lambda>(k, e). (reject e, v)) xs\<rparr>"
    by (rule Cons.IH)
  also have "\<dots> = s\<lparr>timers := filter (\<lambda>(t, d). t \<notin> (\<lambda>(k, e). timer e) ` set (x # xs)) (timers s),
       settled := settled s @ map (\<lambda>(k, e). (reject e, v)) (x # xs)\<rparr>"
    unfolding x clearTimeout_def call_def
    by (simp add: filter_delete_timers [of xs e _ k] del: set_simps)
  finally show ?case .
qed

lemma onclose_eq:
  "onclose st =
     (if \<not> authenticated st
      then st\<lparr>timers := AList.delete connTimer (timers st),
              stderr := stderr st @ [''Error: Connection closed before authentication''],
              exited := Some EXIT_CONN\<rparr>
      else st\<lparr>timers := filter (\<lambda>(t, d). t \<notin> (\<lambda>(k, e). timer e) ` set (pending st)) (timers st),
              settled := settled st @ map (\<lambda>(k, e). (reject e, Error ''Connection closed unexpectedly'')) (pending st),
              pending := []\<rparr>)"
  unfolding onclose_def fold_reject_all by (simp add: die_def clearTimeout_def)

section \<open>A send without a run identifier\<close>

text \<open>
  C10. When the payload of the \<^verbatim>\<open>chat.send\<close> response has no truthy \<^verbatim>\<open>runId\<close>,
  \<^verbatim>\<open>runSend\<close> returns the payload itself; the table, the timers and the promises are
  what they were; an agent event of any content then leaves the state unchanged; and
  \<^verbatim>\<open>runCommand\<close> prints the payload as the result of the command.
\<close>

theorem runSend_without_runId:
  assumes "\<not> truthy (opt sendResult ''runId'')"
  shows "fst (runSend_resumed E sendResult st) = Inl (Data sendResult)
     \<and> pending (snd (runSend_resumed E sendResult st)) = pending st
     \<and> timers (snd (runSend_resumed E sendResult st)) = timers st
     \<and> settled (snd (runSend_resumed E sendResult st)) = settled st
     \<and> (\<forall>now msg. own msg ''type'' = Some (JStr ''event'') \<and> own msg ''event'' = Some (JStr ''agent'')
           \<longrightarrow> onmessage E now (Some msg) (snd (runSend_resumed E sendResult st))
               = snd (runSend_resumed E sendResult st))
     \<and> stdout (runCommand_settled (Fulfilled (Data sendResult)) (snd (runSend_resumed E sendResult st)))
         = stdout st @ [Data sendResult]"
  using assms
  by (simp add: runSend_resumed_eq agent_event lifecycle_end_def runCommand_settled_def cleanup_eq)

theorem runSend_without_runId_witness:
  "fst (runSend_resumed demo_env (Some (JObj [(''accepted'', JBool True)])) (init Absent))
     = Inl (Data (Some (JObj [(''accepted'', JBool True)])))
   \<and> pending (snd (runSend_resumed demo_env (Some (JObj [(''accepted'', JBool True)])) (init Absent))) = []
   \<and> onmessage demo_env 5
        (Some (JObj [(''type'', JStr ''event''), (''event'', JStr ''agent''),
                     (''data'', JObj [(''stream'', JStr ''lifecycle''), (''phase'', JStr ''end''),
                                      (''runId'', JStr ''r1'')])]))
        (snd (runSend_resumed demo_env (Some (JObj [(''accepted'', JBool True)])) (init Absent)))
      = snd (runSend_resumed demo_env (Some (JObj [(''accepted'', JBool True)])) (init Absent))"
proof -
  have h: "\<not> truthy (opt (Some (JObj [(''accepted'', JBool True)])) ''runId'')"
    by (simp add: opt_def)
  show ?thesis
    using runSend_without_runId [OF h, of demo_env "init Absent"]
    by (simp add: init_def)
qed

section \<open>Shutdown\<close>

lemma run_exited: "exited st \<noteq> None \<Longrightarrow> run E acts st = st"
  by (induction acts) (simp_all add: run_def step_def)

text \<open>
  C6, as stated, fails: with one request pending, the handler of an interrupt signal
  empties the table and exits with status 3, and no settling function of the pending
  call has been called: its promise is neither rejected nor resolved.
\<close>

theorem cleanup_rejects_counterexample:
  "map_of (pending demo_call) ''1'' = Some \<lparr>resolve = Resolve 0, reject = Reject 0, timer = 1\<rparr>
   \<and> exited demo_call = None
   \<and> pending (signal demo_call) = []
   \<and> exited (signal demo_call) = Some 3
   \<and> settled (signal demo_call) = []
   \<and> outcome 0 (settled (signal demo_call)) = None"
  by (simp add: demo_call_def sendReq_eq init_def signal_def cleanup_eq EXIT_OP_def
      String_num.simps digit_def)

text \<open>
  C6, as amended. On a forced shutdown (the signal handlers call \<^verbatim>\<open>cleanup\<close>) the
  table is emptied, the timer of every entry it held is cancelled and the process
  exits with the given status; no settling function is called, then or ever after:
  the promises of the calls that were pending stay unsettled.
\<close>

theorem cleanup_clears_without_settling:
  "pending (cleanup code st) = []
   \<and> exited (cleanup code st) = Some code
   \<and> settled (cleanup code st) = settled st
   \<and> (\<forall>(k, e) \<in> set (pending st). map_of (timers (cleanup code st)) (timer e) = None)
   \<and> signal st = cleanup EXIT_OP st
   \<and> (\<forall>E acts. settled (run E acts (cleanup code st)) = settled st)"
proof -
  have "map_of (timers (cleanup code st)) (timer e) = None" if "(k, e) \<in> set (pending st)" for k e
  proof -
    have "timer e \<notin> fst ` set (timers (cleanup code st))"
      using that by (force simp: cleanup_eq)
    then show ?thesis
      by (simp add: map_of_eq_None_iff)
  qed
  moreover have "run E acts (cleanup code st) = cleanup code st" for E acts
    by (rule run_exited) (simp add: cleanup_eq)
  ultimately show ?thesis
    by (auto simp: cleanup_eq signal_def)
qed

theorem cleanup_clears_without_settling_witness:
  "pending (cleanup 3 demo_call) = []
   \<and> exited (cleanup 3 demo_call) = Some 3
   \<and> settled (cleanup 3 demo_call) = []
   \<and> map_of (timers (cleanup 3 demo_call)) 1 = None
   \<and> map_of (timers demo_call) 1
        = Some (OPERATION_TIMEOUT, RequestTimeout ''1'' ''status'' (Reject 0))
   \<and> settled (run demo_env [Message 9 (Some (JObj [(''type'', JStr ''res''), (''id'', JStr ''1''),
         (''ok'', JBool True)])), Close] (cleanup 3 demo_call)) = []"
proof -
  have h: "(''1'', \<lparr>resolve = Resolve 0, reject = Reject 0, timer = 1\<rparr>) \<in> set (pending demo_call)"
    by (simp add: demo_call_def sendReq_eq init_def String_num.simps digit_def)
  have s: "settled demo_call = []"
    by (simp add: demo_call_def sendReq_eq init_def)
  have t: "map_of (timers demo_call) 1
        = Some (OPERATION_TIMEOUT, RequestTimeout ''1'' ''status'' (Reject 0))"
    by (simp add: demo_call_def sendReq_eq init_def String_num.simps digit_def connTimer_def)
  show ?thesis
    using cleanup_clears_without_settling [of 3 demo_call] h s t
    by auto
qed

section \<open>The handshake and the stale token\<close>

lemma connect_failed_eq:
  "connect_failed E now e st =
     (if truthy_token (STORED_DEVICE_TOKEN E) \<and> stale e
      then (AwaitRetry (promise_count st),
            snd (sendReq ''connect'' (connectParams E (TOKEN E) now)
              (st\<lparr>deviceAuthFile := Absent,
                  stderr := stderr st @
                    [''Warning: Stored device token expired, retrying with gateway token...'']\<rparr>)))
      else (Ended, die (''Error: Authentication failed '' @ em_dash @ '' '' @ message_text e)
                     EXIT_AUTH st))"
  by (simp add: connect_failed_def unlinkSync_def sendReq_eq Let_def)

text \<open>
  C7, as stated, fails: the cache file holds a token for the role \<^verbatim>\<open>viewer\<close> besides
  the stale one of \<^verbatim>\<open>operator\<close>; after the gateway rejects the cached token as
  mismatched, the file is gone and the token of \<^verbatim>\<open>viewer\<close> no longer loads.
\<close>

theorem stale_entry_only_counterexample:
  "loadStoredDeviceToken (deviceAuthFile demo_challenged) ''dev1'' ''viewer''
     = Some (JStr ''viewer-token'')
   \<and> stale (Error ''device_token_mismatch'')
   \<and> deviceAuthFile (snd (after_connect demo_env 1700000000001
         (Rejected (Error ''device_token_mismatch'')) demo_challenged)) = Absent
   \<and> loadStoredDeviceToken (deviceAuthFile (snd (after_connect demo_env 1700000000001
         (Rejected (Error ''device_token_mismatch'')) demo_challenged))) ''dev1'' ''viewer'' = None"
  by (simp add: demo_challenged_def challenge_def sendReq_eq init_def demo_file_def
      loadStoredDeviceToken_def nullish_def opt_def or_null_def after_connect_def connect_failed_eq
      demo_env_def truthy_token_def stale_def clearTimeout_def)

text \<open>
  C7, as amended. When the first connect attempt used a cached token and is rejected as
  stale, the handler removes the whole cache file before it retries: afterwards no
  token loads from it, for any identifier and any role.
\<close>

theorem stale_token_removes_file:
  assumes "truthy_token (STORED_DEVICE_TOKEN E)" and "stale e"
  shows "deviceAuthFile (snd (after_connect E now (Rejected e) st)) = Absent
     \<and> loadStoredDeviceToken (deviceAuthFile (snd (after_connect E now (Rejected e) st))) d r = None"
  using assms
  by (simp add: after_connect_def connect_failed_eq sendReq_eq loadStoredDeviceToken_def)

theorem stale_token_removes_file_witness:
  "deviceAuthFile (snd (after_connect demo_env 1700000000001
         (Rejected (Error ''{code:unauthorized}'')) demo_challenged)) = Absent
   \<and> loadStoredDeviceToken (deviceAuthFile (snd (after_connect demo_env 1700000000001
         (Rejected (Error ''{code:unauthorized}'')) demo_challenged))) ''dev1'' ''operator'' = None
   \<and> loadStoredDeviceToken (deviceAuthFile demo_challenged) ''dev1'' ''operator''
       = Some (JStr ''cached-token'')"
proof -
  have h1: "truthy_token (STORED_DEVICE_TOKEN demo_env)"
    by (simp add: demo_env_def truthy_token_def)
  have h2: "stale (Error ''{code:unauthorized}'')"
    by (simp add: stale_def)
  have h3: "loadStoredDeviceToken (deviceAuthFile demo_challenged) ''dev1'' ''operator''
       = Some (JStr ''cached-token'')"
    by (simp add: demo_challenged_def challenge_def sendReq_eq init_def demo_file_def
      loadStoredDeviceToken_def nullish_def opt_def or_null_def clearTimeout_def)
  show ?thesis
    using stale_token_removes_file [OF h1 h2, of 1700000000001 demo_challenged "''dev1''" "''operator''"] h3
    by blast
qed

lemma connect_tokens_sendReq:
  "connect_tokens (snd (sendReq ''connect'' (connectParams E tok now) st))
     = connect_tokens st @ [Some (JStr tok)]"
  by (simp add: connect_tokens_def sendReq_eq request_frame_def connectParams_def opt_def Let_def)



lemma challenge_tokens:
  "connect_tokens (snd (challenge E now msg st))
     = connect_tokens st @ [Some (JStr (case STORED_DEVICE_TOKEN E of None \<Rightarrow> TOKEN E | Some t \<Rightarrow> t))]"
  by (simp add: challenge_def Let_def connect_tokens_sendReq)
     (simp add: connect_tokens_def clearTimeout_def)





lemma after_retry_never_awaits: "fst (after_retry E now r st) \<noteq> AwaitRetry p"
  by (auto simp: after_retry_def Let_def split: awaited.splits sum.splits)












text \<open>
  The guard of the retry tests the cached token for truthiness: with the empty string
  cached, the first attempt carries it and a rejection is never retried.
\<close>

lemma empty_cached_token_no_retry:
  assumes "STORED_DEVICE_TOKEN E = Some []"
  shows "fst (after_connect E now (Rejected e) st) = Ended
     \<and> connect_tokens (snd (challenge E now0 msg st)) = connect_tokens st @ [Some (JStr [])]"
  using assms
  by (simp add: after_connect_def connect_failed_eq truthy_token_def challenge_tokens)

section \<open>Closing while a send waits\<close>

text \<open>
  C5, on the code: the connection closes after authentication while the completion
  wait of a send is pending. The close handler calls the entry's \<^verbatim>\<open>reject\<close>, which
  \<^verbatim>\<open>runSend\<close> set to the promise's \<^verbatim>\<open>resolve\<close>: the promise is fulfilled with the
  \<^verbatim>\<open>Error\<close> object, \<^verbatim>\<open>runCommand\<close> prints it as the result and the process exits with
  status 0.
\<close>

theorem close_resolves_completion_wait:
  "authenticated demo_waiting
   \<and> map_of (pending demo_waiting) ''send-wait''
       = Some \<lparr>resolve = Resolve 0, reject = Resolve 0, timer = 1\<rparr>
   \<and> settled (onclose demo_waiting) = [(Resolve 0, Error ''Connection closed unexpectedly'')]
   \<and> outcome 0 (settled (onclose demo_waiting))
       = Some (Fulfilled (Error ''Connection closed unexpectedly''))
   \<and> stdout (runCommand_settled (Fulfilled (Error ''Connection closed unexpectedly''))
         (onclose demo_waiting)) = [Error ''Connection closed unexpectedly'']
   \<and> exited (runCommand_settled (Fulfilled (Error ''Connection closed unexpectedly''))
         (onclose demo_waiting)) = Some 0"
  by (simp add: demo_waiting_def runSend_resumed_eq opt_def init_def onclose_eq
      runCommand_settled_def cleanup_eq)

section \<open>What a step can settle\<close>

lemma set_update_subset: "set (AList.update k v al) \<subseteq> insert (k, v) (set al)"
  by (induction al) (auto split: if_splits)

lemma set_delete_subset: "set (AList.delete k al) \<subseteq> set al"
  by (auto simp: AList.delete_eq)

lemma calls_on_append: "calls_on p (xs @ ys) = calls_on p xs @ calls_on p ys"
  by (simp add: calls_on_def)

lemma calls_on_none: "(\<forall>(k, v) \<in> set new. promise_of k \<noteq> p) \<Longrightarrow> calls_on p new = []"
  by (auto simp: calls_on_def filter_empty_conv)

lemma shrinks_quiet:
  assumes "quiet p st" and "shrinks st st'"
  shows "quiet p st' \<and> calls_on p (settled st') = calls_on p (settled st)"
proof -
  from assms(2) obtain new where new: "settled st' = settled st @ new"
    "\<forall>(k, v) \<in> set new. referenced (promise_of k) st"
    and sub: "set (pending st') \<subseteq> set (pending st)" "set (timers st') \<subseteq> set (timers st)"
    and pc: "promise_count st' = promise_count st"
    by (auto simp: shrinks_def)
  have "\<not> referenced p st'"
    using assms(1) sub by (fastforce simp: quiet_def referenced_def)
  moreover have "calls_on p new = []"
    using new(2) assms(1) by (intro calls_on_none) (auto simp: quiet_def)
  ultimately show ?thesis
    using assms(1) pc new(1) by (simp add: quiet_def calls_on_append)
qed

lemma shrinks_refl: "shrinks st st"
  by (simp add: shrinks_def)

lemma referenced_entry:
  "map_of (pending st) k = Some e \<Longrightarrow> referenced (promise_of (resolve e)) st
     \<and> referenced (promise_of (reject e)) st"
  by (auto simp: referenced_def entry_promises_def dest!: map_of_SomeD)

lemma referenced_timer:
  "map_of (timers st) t = Some (d, cb) \<Longrightarrow> p \<in> callback_promises cb \<Longrightarrow> referenced p st"
  by (auto simp: referenced_def dest!: map_of_SomeD)

lemma shrinks_handleResponse: "shrinks st (handleResponse E msg st)"
proof (cases "pending_get (own msg ''id'') (pending st)")
  case None
  then show ?thesis by (simp add: handleResponse_def shrinks_refl)
next
  case (Some e)
  then obtain k where k: "own msg ''id'' = Some (JStr k)" "map_of (pending st) k = Some e"
    by (auto simp: pending_get_def split: option.splits json.splits)
  note r = referenced_entry [OF k(2)]
  show ?thesis
    using Some r k(1) set_delete_subset [of k "pending st"] set_delete_subset [of "timer e" "timers st"]
    by (auto simp: handleResponse_def shrinks_def Let_def clearTimeout_def call_def pending_delete_def)
qed

lemma shrinks_lifecycle:
  "map_of (pending st) ''send-wait'' = Some e \<Longrightarrow>
   shrinks st (call (resolve e) v ((clearTimeout (timer e) st)
                         \<lparr>pending := AList.delete ''send-wait'' (pending st)\<rparr>))"
  using referenced_entry [of st "''send-wait''" e]
    set_delete_subset [of "''send-wait''" "pending st"] set_delete_subset [of "timer e" "timers st"]
  by (auto simp: shrinks_def clearTimeout_def call_def)

lemma shrinks_fire: "shrinks st (fire E t st)"
proof (cases "map_of (timers st) t")
  case None
  then show ?thesis by (simp add: fire_def shrinks_refl)
next
  case (Some dc)
  obtain d cb where dc: "dc = (d, cb)" by (cases dc)
  show ?thesis
    using Some referenced_timer [of st t d cb]
      set_delete_subset [of _ "pending st"] set_delete_subset [of t "timers st"]
    by (cases cb) (auto simp: dc fire_def shrinks_def call_def die_def)
qed

lemma shrinks_cleanup: "shrinks st (cleanup code st)"
  by (auto simp: cleanup_eq shrinks_def)

lemma shrinks_onclose: "shrinks st (onclose st)"
  using set_delete_subset [of connTimer "timers st"]
  by (auto simp: onclose_eq shrinks_def referenced_def entry_promises_def)

lemma shrinks_onerror: "shrinks st (onerror E st)"
  using set_delete_subset [of connTimer "timers st"]
  by (auto simp: onerror_def die_def clearTimeout_def shrinks_def)

lemma shrinks_evolves: "shrinks st st' \<Longrightarrow> evolves st st'"
  unfolding shrinks_def evolves_def referenced_def by fastforce

lemma evolves_refl: "evolves st st"
  by (simp add: evolves_def)

lemma evolves_trans:
  assumes "evolves st st'" and "evolves st' st''"
  shows "evolves st st''"
proof -
  from assms(1) obtain new1 where 1: "promise_count st \<le> promise_count st'"
    "\<forall>p. referenced p st' \<longrightarrow> referenced p st \<or> promise_count st \<le> p"
    "settled st' = settled st @ new1"
    "\<forall>(k, v) \<in> set new1. referenced (promise_of k) st \<or> promise_count st \<le> promise_of k"
    by (auto simp: evolves_def)
  from assms(2) obtain new2 where 2: "promise_count st' \<le> promise_count st''"
    "\<forall>p. referenced p st'' \<longrightarrow> referenced p st' \<or> promise_count st' \<le> p"
    "settled st'' = settled st' @ new2"
    "\<forall>(k, v) \<in> set new2. referenced (promise_of k) st' \<or> promise_count st' \<le> promise_of k"
    by (auto simp: evolves_def)
  have a: "promise_count st \<le> promise_count st''"
    using 1(1) 2(1) by simp
  have b: "\<forall>p. referenced p st'' \<longrightarrow> referenced p st \<or> promise_count st \<le> p"
    using 1(1,2) 2(2) by (meson le_trans)
  have c: "settled st'' = settled st @ (new1 @ new2)"
    using 1(3) 2(3) by simp
  have d: "\<forall>(k, v) \<in> set (new1 @ new2). referenced (promise_of k) st \<or> promise_count st \<le> promise_of k"
    using 1(1,2,4) 2(4) by (fastforce dest: le_trans)
  show ?thesis
    unfolding evolves_def using a b c d by blast
qed

lemma evolves_quiet:
  assumes "quiet p st" and "evolves st st'"
  shows "quiet p st' \<and> calls_on p (settled st') = calls_on p (settled st)"
proof -
  from assms(2) obtain new where new: "settled st' = settled st @ new"
    "\<forall>(k, v) \<in> set new. referenced (promise_of k) st \<or> promise_count st \<le> promise_of k"
    and r: "\<forall>p. referenced p st' \<longrightarrow> referenced p st \<or> promise_count st \<le> p"
    and pc: "promise_count st \<le> promise_count st'"
    by (auto simp: evolves_def)
  have "\<not> referenced p st'"
    using assms(1) r by (fastforce simp: quiet_def)
  moreover have "calls_on p new = []"
    using new(2) assms(1) by (intro calls_on_none) (fastforce simp: quiet_def)
  ultimately show ?thesis
    using assms(1) pc new(1) by (simp add: quiet_def calls_on_append)
qed

lemma evolves_same:
  assumes "pending st' = pending st" and "timers st' = timers st"
    and "promise_count st' = promise_count st" and "settled st' = settled st"
  shows "evolves st st'"
  using assms by (simp add: evolves_def referenced_def)

lemma evolves_sendReq: "evolves st (snd (sendReq method params st))"
  using set_update_subset [of "String_num (msgId st + 1)" _ "pending st"]
  by (fastforce simp: sendReq_eq evolves_def referenced_def entry_promises_def)

lemma evolves_runSend_resumed: "evolves st (snd (runSend_resumed E sendResult st))"
  using set_update_subset [of "''send-wait''" _ "pending st"]
  by (fastforce simp: runSend_resumed_eq evolves_def referenced_def entry_promises_def)

lemma evolves_clearTimeout: "evolves st (clearTimeout t st)"
  using set_delete_subset [of t "timers st"]
  by (intro shrinks_evolves) (auto simp: shrinks_def clearTimeout_def)

lemma evolves_challenge: "evolves st (snd (challenge E now msg st))"
proof -
  let ?st2 = "(clearTimeout connTimer st)\<lparr>connectNonce := or_null (opt (own msg ''data'') ''nonce'')\<rparr>"
  have "evolves (clearTimeout connTimer st) ?st2"
    by (rule evolves_same) simp_all
  with evolves_clearTimeout have "evolves st ?st2"
    by (rule evolves_trans)
  moreover have "evolves ?st2 (snd (sendReq ''connect''
      (connectParams E (case STORED_DEVICE_TOKEN E of None \<Rightarrow> TOKEN E | Some t \<Rightarrow> t) now) ?st2))"
    by (rule evolves_sendReq)
  ultimately show ?thesis
    unfolding challenge_def Let_def by (rule evolves_trans)
qed

lemma evolves_die: "evolves st (die m c st)"
  by (rule evolves_same) (simp_all add: die_def)

lemma evolves_connect_failed: "evolves st (snd (connect_failed E now e st))"
proof (cases "truthy_token (STORED_DEVICE_TOKEN E) \<and> stale e")
  case True
  let ?st2 = "st\<lparr>deviceAuthFile := Absent,
                  stderr := stderr st @
                    [''Warning: Stored device token expired, retrying with gateway token...'']\<rparr>"
  have "evolves st ?st2"
    by (rule evolves_same) simp_all
  moreover have "evolves ?st2 (snd (sendReq ''connect'' (connectParams E (TOKEN E) now) ?st2))"
    by (rule evolves_sendReq)
  ultimately have "evolves st (snd (sendReq ''connect'' (connectParams E (TOKEN E) now) ?st2))"
    by (rule evolves_trans)
  then show ?thesis
    using True by (simp add: connect_failed_eq)
next
  case False
  then show ?thesis
    by (auto simp: connect_failed_eq evolves_die)
qed

lemma store_issued_token_same:
  "store_issued_token E now r st = Inr st' \<Longrightarrow>
     pending st' = pending st \<and> timers st' = timers st
     \<and> promise_count st' = promise_count st \<and> settled st' = settled st"
  by (auto simp: store_issued_token_def Let_def split: if_splits sum.splits)

lemma evolves_after_connect: "evolves st (snd (after_connect E now r st))"
proof (cases r)
  case (Fulfilled v)
  show ?thesis
  proof (cases "store_issued_token E now (data_of v) st")
    case (Inl err)
    with Fulfilled show ?thesis
      by (simp add: after_connect_def evolves_connect_failed)
  next
    case (Inr st1)
    then have "evolves st (st1\<lparr>authenticated := True\<rparr>)"
      by (intro evolves_same) (simp_all add: store_issued_token_same)
    with Fulfilled Inr show ?thesis
      by (simp add: after_connect_def)
  qed
next
  case (Rejected e)
  then show ?thesis
    by (simp add: after_connect_def evolves_connect_failed)
qed

lemma evolves_after_retry: "evolves st (snd (after_retry E now r st))"
proof (cases r)
  case (Fulfilled v)
  show ?thesis
  proof (cases "store_issued_token E now (data_of v) st")
    case (Inl err)
    with Fulfilled show ?thesis
      by (simp add: after_retry_def evolves_die)
  next
    case (Inr st1)
    then have "evolves st (st1\<lparr>authenticated := True\<rparr>)"
      by (intro evolves_same) (simp_all add: store_issued_token_same)
    with Fulfilled Inr show ?thesis
      by (simp add: after_retry_def)
  qed
next
  case (Rejected e)
  then show ?thesis
    by (simp add: after_retry_def evolves_die)
qed

lemma evolves_runCommand_settled: "evolves st (runCommand_settled r st)"
proof -
  have "evolves st (cleanup c st2)"
    if "pending st2 = pending st" "timers st2 = timers st"
      "promise_count st2 = promise_count st" "settled st2 = settled st" for c st2
  proof -
    have "evolves st st2"
      using that by (rule evolves_same)
    then show ?thesis
      using shrinks_evolves [OF shrinks_cleanup] by (rule evolves_trans)
  qed
  then show ?thesis
    by (simp add: runCommand_settled_def split: awaited.splits)
qed

lemma evolves_onmessage: "evolves st (onmessage E now frame st)"
proof (cases frame)
  case None
  then show ?thesis
    by (simp add: onmessage_def, intro evolves_same) simp_all
next
  case (Some msg)
  have 1: "evolves st (st\<lparr>exited := Some 1\<rparr>)"
    by (rule evolves_same) simp_all
  have 2: "evolves st (case map_of (pending st) ''send-wait'' of
                  None \<Rightarrow> st
                | Some entry \<Rightarrow>
                    let st1 = clearTimeout (timer entry) st;
                        st2 = st1\<lparr>pending := AList.delete ''send-wait'' (pending st1)\<rparr>
                    in call (resolve entry) (run_status (sendRunId st2) ''completed'') st2)"
    using shrinks_evolves [OF shrinks_lifecycle]
    by (auto simp: evolves_refl Let_def clearTimeout_def split: option.splits)
  show ?thesis
    unfolding onmessage_def Some
    using 1 2 evolves_challenge shrinks_evolves [OF shrinks_handleResponse] evolves_refl
    by simp
qed

lemma evolves_step: "evolves st (step E a st)"
proof (cases "exited st \<noteq> None")
  case True
  then show ?thesis by (simp add: step_def evolves_refl)
next
  case False
  have c: "evolves st (onclose (st\<lparr>readyState := CLOSED\<rparr>))"
  proof -
    have "evolves st (st\<lparr>readyState := CLOSED\<rparr>)"
      by (rule evolves_same) simp_all
    then show ?thesis
      using shrinks_evolves [OF shrinks_onclose] by (rule evolves_trans)
  qed
  show ?thesis
    using False c
    by (cases a)
       (simp_all add: step_def evolves_onmessage shrinks_evolves [OF shrinks_onerror]
          shrinks_evolves [OF shrinks_fire] signal_def shrinks_evolves [OF shrinks_cleanup]
          evolves_sendReq evolves_after_connect evolves_after_retry evolves_runSend_resumed
          evolves_runCommand_settled)
qed

lemma evolves_run: "evolves st (run E acts st)"
proof (induction acts arbitrary: st)
  case Nil
  then show ?case by (simp add: run_def evolves_refl)
next
  case (Cons a acts)
  have "evolves st (step E a st)" by (rule evolves_step)
  moreover have "evolves (step E a st) (run E acts (step E a st))" by (rule Cons.IH)
  ultimately have "evolves st (run E acts (step E a st))"
    by (rule evolves_trans)
  then show ?case
    by (simp add: run_def)
qed

lemma quiet_run:
  "quiet p st \<Longrightarrow> calls_on p (settled (run E acts st)) = calls_on p (settled st)"
  using evolves_quiet [OF _ evolves_run] by blast

section \<open>The invariant of reachable states\<close>

lemma map_of_append_fresh:
  "k \<notin> fst ` set xs \<Longrightarrow> map_of (xs @ [(k, v)]) k = Some v"
  by (induction xs) auto

lemma map_of_append_other:
  "k' \<noteq> k \<Longrightarrow> map_of (xs @ [(k, v)]) k' = map_of xs k'"
  by (induction xs) auto

lemma delete_update_subset: "set (AList.delete k (AList.update k v al)) \<subseteq> set al"
  by (simp add: delete_update_same set_delete_subset)

lemma delete_append_fresh:
  "k \<notin> fst ` set xs \<Longrightarrow> AList.delete k (xs @ [(k, v)]) = xs"
  by (induction xs) (auto simp: AList.delete_eq)

lemma wf_init: "wf (init f)"
  by (simp add: wf_def init_def connTimer_def)

lemma wf_referenced: "wf st \<Longrightarrow> referenced p st \<Longrightarrow> p < promise_count st"
  by (fastforce simp: wf_def referenced_def)

lemma wf_shrinks:
  assumes "wf st" and "shrinks st st'"
  shows "wf st'"
proof -
  from assms(2) obtain new where new: "settled st' = settled st @ new"
    "\<forall>(k, v) \<in> set new. referenced (promise_of k) st"
    and sub: "set (pending st') \<subseteq> set (pending st)" "set (timers st') \<subseteq> set (timers st)"
    and pc: "promise_count st' = promise_count st" "timer_count st' = timer_count st"
    by (auto simp: shrinks_def)
  have 0: "\<forall>(k, v) \<in> set new. promise_of k < promise_count st"
    using new(2) wf_referenced [OF assms(1)] by fastforce
  have 1: "\<forall>(k', e') \<in> set (pending st'). timer e' < timer_count st'
         \<and> (\<forall>p \<in> entry_promises e'. p < promise_count st')"
    using assms(1) sub(1) unfolding wf_def pc by blast
  have 2: "\<forall>(t, d, cb) \<in> set (timers st'). t < timer_count st'
         \<and> (\<forall>p \<in> callback_promises cb. p < promise_count st')"
    using assms(1) sub(2) unfolding wf_def pc by blast
  have 3: "\<forall>(k, v) \<in> set (settled st'). promise_of k < promise_count st'"
    using assms(1) 0 unfolding wf_def pc new(1) by auto
  show ?thesis
    unfolding wf_def using 1 2 3 by blast
qed

lemma wf_same:
  assumes "wf st" and "pending st' = pending st" and "timers st' = timers st"
    and "promise_count st' = promise_count st" and "timer_count st' = timer_count st"
    and "settled st' = settled st"
  shows "wf st'"
  using assms by (simp add: wf_def)

lemma wf_registered:
  assumes "wf st"
    and "entry_promises e = {promise_count st}" and "timer e = timer_count st"
    and "callback_promises cb = {promise_count st}"
    and "pending st' = AList.update k e (pending st)"
    and "timers st' = timers st @ [(timer_count st, d, cb)]"
    and "promise_count st' = promise_count st + 1" and "timer_count st' = timer_count st + 1"
    and "settled st' = settled st"
  shows "wf st'"
proof -
  have 1: "\<forall>(k', e') \<in> set (pending st'). timer e' < timer_count st'
         \<and> (\<forall>p \<in> entry_promises e'. p < promise_count st')"
    using assms(1) set_update_subset [of k e "pending st"]
    by (fastforce simp: assms(2,3,5,7,8) wf_def)
  have 2: "\<forall>(t, d, cb) \<in> set (timers st'). t < timer_count st'
         \<and> (\<forall>p \<in> callback_promises cb. p < promise_count st')"
    using assms(1) by (fastforce simp: assms(4,6,7,8) wf_def)
  have 3: "\<forall>(k, v) \<in> set (settled st'). promise_of k < promise_count st'"
    using assms(1) by (fastforce simp: assms(7,9) wf_def)
  show ?thesis
    unfolding wf_def using 1 2 3 by blast
qed

lemma wf_sendReq: "wf st \<Longrightarrow> wf (snd (sendReq method params st))"
  by (rule wf_registered [where e = "\<lparr>resolve = Resolve (promise_count st),
          reject = Reject (promise_count st), timer = timer_count st\<rparr>"
          and cb = "RequestTimeout (String_num (msgId st + 1)) method (Reject (promise_count st))"
          and d = OPERATION_TIMEOUT and k = "String_num (msgId st + 1)"])
     (simp_all add: sendReq_eq entry_promises_def)

lemma wf_runSend_resumed: "wf st \<Longrightarrow> wf (snd (runSend_resumed E sendResult st))"
proof (cases "truthy (opt sendResult ''runId'')")
  case False
  assume "wf st"
  then show ?thesis
    by (rule wf_same) (simp_all add: runSend_resumed_eq False)
next
  case True
  assume "wf st"
  then show ?thesis
    by (rule wf_registered [where e = "\<lparr>resolve = Resolve (promise_count st),
          reject = Resolve (promise_count st), timer = timer_count st\<rparr>"
          and cb = "SendTimeout (Resolve (promise_count st))" and d = "SEND_TIMEOUT E"
          and k = "''send-wait''"])
       (simp_all add: runSend_resumed_eq True entry_promises_def)
qed

lemma shrinks_clearTimeout: "shrinks st (clearTimeout t st)"
  using set_delete_subset [of t "timers st"]
  by (auto simp: shrinks_def clearTimeout_def)

lemma wf_challenge: "wf st \<Longrightarrow> wf (snd (challenge E now msg st))"
proof -
  assume "wf st"
  then have "wf (clearTimeout connTimer st)"
    using shrinks_clearTimeout by (rule wf_shrinks)
  then have "wf ((clearTimeout connTimer st)\<lparr>connectNonce := or_null (opt (own msg ''data'') ''nonce'')\<rparr>)"
    by (rule wf_same) simp_all
  then show ?thesis
    unfolding challenge_def Let_def by (rule wf_sendReq)
qed

lemma wf_die: "wf st \<Longrightarrow> wf (die m c st)"
  by (erule wf_same) (simp_all add: die_def)

lemma wf_connect_failed: "wf st \<Longrightarrow> wf (snd (connect_failed E now e st))"
proof -
  assume w: "wf st"
  then have "wf (st\<lparr>deviceAuthFile := Absent,
                  stderr := stderr st @
                    [''Warning: Stored device token expired, retrying with gateway token...'']\<rparr>)"
    by (rule wf_same) simp_all
  then have "wf (snd (sendReq ''connect'' (connectParams E (TOKEN E) now)
              (st\<lparr>deviceAuthFile := Absent,
                  stderr := stderr st @
                    [''Warning: Stored device token expired, retrying with gateway token...'']\<rparr>)))"
    by (rule wf_sendReq)
  then show ?thesis
    using wf_die [OF w] by (simp add: connect_failed_eq)
qed

lemma store_issued_token_timer_count:
  "store_issued_token E now r st = Inr st' \<Longrightarrow> timer_count st' = timer_count st"
  by (auto simp: store_issued_token_def Let_def split: if_splits sum.splits)

lemma wf_after_connect: "wf st \<Longrightarrow> wf (snd (after_connect E now r st))"
proof -
  assume w: "wf st"
  show ?thesis
  proof (cases r)
    case (Fulfilled v)
    show ?thesis
    proof (cases "store_issued_token E now (data_of v) st")
      case (Inl err)
      with Fulfilled show ?thesis
        by (simp add: after_connect_def wf_connect_failed [OF w])
    next
      case (Inr st1)
      have "wf (st1\<lparr>authenticated := True\<rparr>)"
        using w by (rule wf_same)
          (simp_all add: store_issued_token_same [OF Inr] store_issued_token_timer_count [OF Inr])
      with Fulfilled Inr show ?thesis
        by (simp add: after_connect_def)
    qed
  next
    case (Rejected e)
    then show ?thesis
      by (simp add: after_connect_def wf_connect_failed [OF w])
  qed
qed

lemma wf_after_retry: "wf st \<Longrightarrow> wf (snd (after_retry E now r st))"
proof -
  assume w: "wf st"
  show ?thesis
  proof (cases r)
    case (Fulfilled v)
    show ?thesis
    proof (cases "store_issued_token E now (data_of v) st")
      case (Inl err)
      with Fulfilled show ?thesis
        by (simp add: after_retry_def wf_die [OF w])
    next
      case (Inr st1)
      have "wf (st1\<lparr>authenticated := True\<rparr>)"
        using w by (rule wf_same)
          (simp_all add: store_issued_token_same [OF Inr] store_issued_token_timer_count [OF Inr])
      with Fulfilled Inr show ?thesis
        by (simp add: after_retry_def)
    qed
  next
    case (Rejected e)
    then show ?thesis
      by (simp add: after_retry_def wf_die [OF w])
  qed
qed

lemma wf_runCommand_settled: "wf st \<Longrightarrow> wf (runCommand_settled r st)"
proof -
  assume w: "wf st"
  have "wf (cleanup c st2)"
    if "pending st2 = pending st" "timers st2 = timers st"
      "promise_count st2 = promise_count st" "timer_count st2 = timer_count st"
      "settled st2 = settled st" for c st2
  proof -
    have "wf st2"
      using w that by (rule wf_same)
    then show ?thesis
      using shrinks_cleanup by (rule wf_shrinks)
  qed
  then show ?thesis
    by (simp add: runCommand_settled_def split: awaited.splits)
qed

lemma wf_onmessage: "wf st \<Longrightarrow> wf (onmessage E now frame st)"
proof -
  assume w: "wf st"
  show ?thesis
  proof (cases frame)
    case None
    show ?thesis
      unfolding onmessage_def None using w by (simp, intro wf_same [OF w]) simp_all
  next
    case (Some msg)
    have 1: "wf (st\<lparr>exited := Some 1\<rparr>)"
      using w by (rule wf_same) simp_all
    have 2: "wf (case map_of (pending st) ''send-wait'' of
                  None \<Rightarrow> st
                | Some entry \<Rightarrow>
                    let st1 = clearTimeout (timer entry) st;
                        st2 = st1\<lparr>pending := AList.delete ''send-wait'' (pending st1)\<rparr>
                    in call (resolve entry) (run_status (sendRunId st2) ''completed'') st2)"
      using w wf_shrinks [OF w shrinks_lifecycle]
      by (auto simp: Let_def clearTimeout_def split: option.splits)
    show ?thesis
      unfolding onmessage_def Some
      using w 1 2 wf_challenge [OF w] wf_shrinks [OF w shrinks_handleResponse]
      by simp
  qed
qed

lemma wf_step: "wf st \<Longrightarrow> wf (step E a st)"
proof -
  assume w: "wf st"
  have c: "wf (onclose (st\<lparr>readyState := CLOSED\<rparr>))"
  proof -
    have "wf (st\<lparr>readyState := CLOSED\<rparr>)"
      using w by (rule wf_same) simp_all
    then show ?thesis
      using shrinks_onclose by (rule wf_shrinks)
  qed
  show ?thesis
    using w c
    by (cases a)
       (simp_all add: step_def wf_onmessage wf_shrinks [OF w shrinks_onerror]
          wf_shrinks [OF w shrinks_fire] signal_def wf_shrinks [OF w shrinks_cleanup]
          wf_sendReq wf_after_connect wf_after_retry wf_runSend_resumed
          wf_runCommand_settled)
qed

lemma wf_run: "wf st \<Longrightarrow> wf (run E acts st)"
proof (induction acts arbitrary: st)
  case Nil
  then show ?case by (simp add: run_def)
next
  case (Cons a acts)
  from Cons.prems have "wf (step E a st)" by (rule wf_step)
  then have "wf (run E acts (step E a st))" by (rule Cons.IH)
  then show ?case by (simp add: run_def)
qed

lemma wf_reachable: "wf (run E acts (init f))"
  using wf_init by (rule wf_run)

lemma init_live: "exited (init f) = None"
  by (simp add: init_def)

section \<open>Requests and their responses\<close>

lemma sendReq_outstanding:
  assumes "wf st" and "exited st = None"
  shows "outstanding (msgId st + 1) (promise_count st) (timer_count st) method
           (snd (sendReq method params st))"
proof -
  have fresh: "timer_count st \<notin> fst ` set (timers st)"
    using assms(1) by (fastforce simp: wf_def)
  have calls: "calls_on (promise_count st) (settled st) = []"
    using assms(1) by (intro calls_on_none) (fastforce simp: wf_def)
  have others: "\<forall>(k, e) \<in> set (AList.update (String_num (msgId st + 1)) e0 (pending st)).
      k \<noteq> String_num (msgId st + 1) \<longrightarrow> promise_count st \<notin> entry_promises e \<and> timer e \<noteq> timer_count st" for e0
    using assms(1) set_update_subset [of "String_num (msgId st + 1)" e0 "pending st"]
    by (fastforce simp: wf_def)
  have timers: "\<forall>(t', d, cb) \<in> set (timers st). promise_count st \<notin> callback_promises cb"
    using assms(1) by (fastforce simp: wf_def)
  have armed: "map_of (timers st @ [(timer_count st, x)]) (timer_count st) = Some x" for x
    by (rule map_of_append_fresh [OF fresh])
  show ?thesis
    using assms(2) calls others timers armed
    by (auto simp: outstanding_def sendReq_eq update_conv' simp del: map_of_append)
qed

lemma String_num_not_send_wait: "String_num n \<noteq> ''send-wait''"
proof
  assume "String_num n = ''send-wait''"
  then have "CHR ''s'' \<in> set (String_num n)" by simp
  with String_num_digits [of n] show False by auto
qed

lemma outstanding_other_removed:
  assumes "outstanding n p t m st" and "map_of (pending st) k = Some e"
    and "k \<noteq> String_num n" and "promise_of c \<in> entry_promises e"
  shows "outstanding n p t m
           (call c v ((clearTimeout (timer e) st)\<lparr>pending := AList.delete k (pending st)\<rparr>))"
proof -
  have mem: "(k, e) \<in> set (pending st)"
    using assms(2) by (rule map_of_SomeD)
  with assms(1,3) have ne: "p \<notin> entry_promises e" "timer e \<noteq> t"
    by (auto simp: outstanding_def)
  with assms(4) have c: "promise_of c \<noteq> p"
    by auto
  have 1: "map_of (AList.delete k (pending st)) (String_num n) = map_of (pending st) (String_num n)"
    using assms(3) by simp
  have 2: "map_of (AList.delete (timer e) (timers st)) t = map_of (timers st) t"
    using ne(2) by simp
  have 3: "calls_on p (settled st @ [(c, v)]) = calls_on p (settled st)"
    using c by (simp add: calls_on_def)
  show ?thesis
    using assms(1) 1 2 3 set_delete_subset [of k "pending st"]
      set_delete_subset [of "timer e" "timers st"]
    unfolding outstanding_def call_def clearTimeout_def
    by (simp add: subset_iff) blast
qed

lemma outstanding_handleResponse:
  assumes "outstanding n p t m st" and "own msg ''id'' \<noteq> Some (JStr (String_num n))"
  shows "outstanding n p t m (handleResponse E msg st)"
proof (cases "pending_get (own msg ''id'') (pending st)")
  case None
  then show ?thesis using assms(1) by (simp add: handleResponse_def)
next
  case (Some e)
  then obtain k where k: "own msg ''id'' = Some (JStr k)" "map_of (pending st) k = Some e"
    by (auto simp: pending_get_def split: option.splits json.splits)
  with assms(2) have ne: "k \<noteq> String_num n" by auto
  have "outstanding n p t m
           (call c v ((clearTimeout (timer e) st)\<lparr>pending := AList.delete k (pending st)\<rparr>))"
    if "promise_of c \<in> entry_promises e" for c v
    using assms(1) k(2) ne that by (rule outstanding_other_removed)
  from this [of "resolve e"] this [of "reject e"] show ?thesis
    using Some k(1)
    by (simp add: handleResponse_def Let_def pending_delete_def entry_promises_def clearTimeout_def)
qed

lemma outstanding_agent_event:
  assumes "outstanding n p t m st"
    and "own msg ''type'' = Some (JStr ''event'')" and "own msg ''event'' = Some (JStr ''agent'')"
  shows "outstanding n p t m (onmessage E now (Some msg) st)"
proof (cases "lifecycle_end msg st \<and> map_of (pending st) ''send-wait'' \<noteq> None")
  case False
  then show ?thesis
    using assms(1) by (auto simp: agent_event [OF assms(2,3)])
next
  case True
  then obtain e where e: "map_of (pending st) ''send-wait'' = Some e" by auto
  have "outstanding n p t m
           (call (resolve e) v ((clearTimeout (timer e) st)\<lparr>pending := AList.delete ''send-wait'' (pending st)\<rparr>))" for v
    using assms(1) e String_num_not_send_wait [of n, symmetric]
    by (rule outstanding_other_removed) (simp add: entry_promises_def)
  then show ?thesis
    using True e by (simp add: agent_event [OF assms(2,3)])
qed

lemma outstanding_registered:
  assumes "outstanding n p t m st" and "k \<noteq> String_num n"
    and "entry_promises e = {promise_count st}" and "timer e = timer_count st"
    and "callback_promises cb = {promise_count st}"
    and "pending st' = AList.update k e (pending st)"
    and "timers st' = timers st @ [(timer_count st, d, cb)]"
    and "promise_count st' = promise_count st + 1" and "timer_count st' = timer_count st + 1"
    and "msgId st \<le> msgId st'" and "settled st' = settled st" and "exited st' = exited st"
  shows "outstanding n p t m st'"
proof -
  have p: "p < promise_count st" and t: "t < timer_count st"
    using assms(1) by (simp_all add: outstanding_def)
  have 1: "map_of (pending st') (String_num n) = map_of (pending st) (String_num n)"
    using assms(2) by (simp add: assms(6) update_conv')
  have 2: "map_of (timers st') t = map_of (timers st) t"
    using t by (simp add: assms(7) map_of_append_other del: map_of_append)
  have 3: "\<forall>(k', e') \<in> set (pending st'). k' \<noteq> String_num n \<longrightarrow> p \<notin> entry_promises e' \<and> timer e' \<noteq> t"
    using assms(1) p t set_update_subset [of k e "pending st"]
    by (auto simp: assms(3,4,6) outstanding_def)
  have 4: "\<forall>(t', d', cb') \<in> set (timers st'). t' \<noteq> t \<longrightarrow> p \<notin> callback_promises cb'"
    using assms(1) p by (auto simp: assms(5,7) outstanding_def)
  show ?thesis
    using assms(1) 1 2 3 4 assms(8-12)
    unfolding outstanding_def by simp
qed

lemma outstanding_sendReq:
  assumes "outstanding n p t m st"
  shows "outstanding n p t m (snd (sendReq method params st))"
proof -
  have "n \<le> msgId st"
    using assms by (simp add: outstanding_def)
  then have ne: "String_num (msgId st + 1) \<noteq> String_num n"
    by (auto dest: String_num_inj)
  show ?thesis
    using assms ne
    by (rule outstanding_registered [where e = "\<lparr>resolve = Resolve (promise_count st),
          reject = Reject (promise_count st), timer = timer_count st\<rparr>"
          and cb = "RequestTimeout (String_num (msgId st + 1)) method (Reject (promise_count st))"
          and d = OPERATION_TIMEOUT])
       (simp_all add: sendReq_eq entry_promises_def)
qed

lemma outstanding_runSend_resumed:
  assumes "outstanding n p t m st"
  shows "outstanding n p t m (snd (runSend_resumed E sendResult st))"
proof (cases "truthy (opt sendResult ''runId'')")
  case False
  then show ?thesis
    using assms by (simp add: runSend_resumed_eq outstanding_def)
next
  case True
  show ?thesis
    using assms String_num_not_send_wait [of n, symmetric]
    by (rule outstanding_registered [where e = "\<lparr>resolve = Resolve (promise_count st),
          reject = Resolve (promise_count st), timer = timer_count st\<rparr>"
          and cb = "SendTimeout (Resolve (promise_count st))" and d = "SEND_TIMEOUT E"])
       (simp_all add: runSend_resumed_eq True entry_promises_def)
qed

lemma outstanding_step:
  assumes "outstanding n p t m st" and "other_traffic n a"
  shows "outstanding n p t m (step E a st)"
proof -
  have live: "exited st = None"
    using assms(1) by (simp add: outstanding_def)
  show ?thesis
  proof (cases a)
    case (Message now frame)
    show ?thesis
    proof (cases frame)
      case None
      then show ?thesis
        using assms(1) live by (simp add: Message step_def onmessage_def outstanding_def)
    next
      case (Some msg)
      from assms(2) have plain: "msg \<noteq> JNull" "\<not> is_challenge msg"
        and other: "own msg ''type'' = Some (JStr ''res'')
            \<Longrightarrow> own msg ''id'' \<noteq> Some (JStr (String_num n))"
        by (simp_all add: Message Some)
      note on = onmessage_plain [OF plain, of E now st]
      show ?thesis
      proof (cases "own msg ''type'' = Some (JStr ''res'')")
        case True
        then show ?thesis
          using outstanding_handleResponse [OF assms(1) other [OF True]] live
          by (simp add: Message Some step_def on)
      next
        case False
        show ?thesis
        proof (cases "lifecycle_end msg st")
          case True
          then have ev: "own msg ''type'' = Some (JStr ''event'')"
            "own msg ''event'' = Some (JStr ''agent'')"
            by (simp_all add: lifecycle_end_def)
          show ?thesis
            using outstanding_agent_event [OF assms(1) ev] live
            by (simp add: Message Some step_def)
        next
          case no_end: False
          then show ?thesis
            using assms(1) live False by (simp add: Message Some step_def on)
        qed
      qed
    qed
  next
    case (Request m' ps)
    then show ?thesis
      using outstanding_sendReq [OF assms(1)] live by (simp add: step_def)
  next
    case (SendSettled sendResult)
    then show ?thesis
      using outstanding_runSend_resumed [OF assms(1)] live by (simp add: step_def)
  qed (use assms(2) in simp_all)
qed

lemma outstanding_run:
  assumes "outstanding n p t m st" and "\<forall>a \<in> set acts. other_traffic n a"
  shows "outstanding n p t m (run E acts st)"
  using assms
proof (induction acts arbitrary: st)
  case Nil
  then show ?case by (simp add: run_def)
next
  case (Cons a acts)
  then have "outstanding n p t m (step E a st)"
    by (simp add: outstanding_step)
  with Cons show ?case
    by (simp add: run_def)
qed

lemma outstanding_settled_quiet:
  assumes "outstanding n p t m st"
    and "pending st' = AList.delete (String_num n) (pending st)"
    and "timers st' = AList.delete t (timers st)"
    and "promise_count st' = promise_count st"
  shows "quiet p st'"
  using assms
  by (auto simp: quiet_def referenced_def outstanding_def AList.delete_eq)

lemma outcome_calls_on:
  "outcome p calls =
     (case calls_on p calls of
        [] \<Rightarrow> None
      | (Resolve q, v) # rest \<Rightarrow> Some (Fulfilled v)
      | (Reject q, v) # rest \<Rightarrow> Some (Rejected v))"
proof (induction calls)
  case Nil
  then show ?case by (simp add: calls_on_def)
next
  case (Cons c calls)
  obtain k v where c: "c = (k, v)" by (cases c)
  show ?case
    using Cons by (cases k) (auto simp: c calls_on_def)
qed

lemma str_includes_self: "str_includes ys ys"
  by (cases ys) simp_all

lemma str_includes_suffix: "str_includes (xs @ ys) ys"
  by (induction xs) (simp_all add: str_includes_self)

lemma fire_outstanding:
  assumes "outstanding n p t m st"
  shows "step E (Timer t) st =
     call (Reject p) (Error (''Timeout waiting for response to '' @ m))
       (st\<lparr>timers := AList.delete t (timers st),
           pending := AList.delete (String_num n) (pending st)\<rparr>)"
  using assms by (simp add: outstanding_def step_def fire_def)

lemma response_outstanding:
  assumes "outstanding n p t m st"
    and "own msg ''type'' = Some (JStr ''res'')"
    and "own msg ''id'' = Some (JStr (String_num n))"
  shows "step E (Message now (Some msg)) st =
     call (if truthy (own msg ''ok'') then Resolve p else Reject p)
       (if truthy (own msg ''ok'') then Data (own msg ''payload'')
        else Error (JSON_stringify E
               (if truthy (own msg ''error'') then the (own msg ''error'')
                else JStr ''Unknown error'')))
       (st\<lparr>timers := AList.delete t (timers st),
           pending := AList.delete (String_num n) (pending st)\<rparr>)"
proof -
  have "msg \<noteq> JNull"
    using assms(2) by auto
  then have "onmessage E now (Some msg) st = handleResponse E msg st"
    using assms(2) by (simp add: onmessage_def is_challenge_def)
  then show ?thesis
    using assms
    by (simp add: outstanding_def step_def handleResponse_def pending_get_def pending_delete_def
        clearTimeout_def Let_def)
qed

lemma settled_once:
  assumes "outstanding n p t m st"
  shows "calls_on p (settled (run E acts
           (call k v (st\<lparr>timers := AList.delete t (timers st),
                        pending := AList.delete (String_num n) (pending st)\<rparr>))))
       = calls_on p [(k, v)]"
proof -
  let ?st' = "call k v (st\<lparr>timers := AList.delete t (timers st),
                        pending := AList.delete (String_num n) (pending st)\<rparr>)"
  have "quiet p ?st'"
    using assms by (rule outstanding_settled_quiet) (simp_all add: call_def)
  then have "calls_on p (settled (run E acts ?st')) = calls_on p (settled ?st')"
    by (rule quiet_run)
  also have "\<dots> = calls_on p [(k, v)]"
    using assms by (simp add: call_def calls_on_append outstanding_def)
  finally show ?thesis .
qed

lemma late_response_dropped:
  assumes "map_of (pending st) k = None" and "own msg ''type'' = Some (JStr ''res'')"
    and "own msg ''id'' = Some (JStr k)"
  shows "step E (Message now (Some msg)) st = st"
proof -
  have "msg \<noteq> JNull"
    using assms(2) by auto
  then have "onmessage E now (Some msg) st = handleResponse E msg st"
    using assms(2) by (simp add: onmessage_def is_challenge_def)
  then show ?thesis
    using assms by (simp add: step_def handleResponse_def pending_get_def)
qed

lemma demo_traffic_other: "\<forall>a \<in> set demo_traffic. other_traffic (msgId (init Absent) + 1) a"
  by (simp add: demo_traffic_def demo_response_def demo_lifecycle_def init_def
      is_challenge_def String_num.simps digit_def)

text \<open>
  C2. A request is issued by \<^verbatim>\<open>sendReq\<close> in a reachable state of a running process;
  then, in any order and number, further requests are issued, responses with other ids
  arrive, lifecycle and other events arrive, frames fail to parse. When the response frame with the
  id of the request arrives, the promise \<^verbatim>\<open>sendReq\<close> returned, unsettled until then, is
  settled by exactly one call: resolved with the frame's payload when the frame is ok,
  rejected with an \<^verbatim>\<open>Error\<close> of the frame's error (or of "Unknown error") when it is
  not. The entry leaves the table, and whatever happens afterwards no second call
  settles the promise.
\<close>

theorem response_settles_its_call:
  assumes "wf st" and "exited st = None"
    and "\<forall>a \<in> set acts. other_traffic (msgId st + 1) a"
    and "own msg ''type'' = Some (JStr ''res'')"
    and "own msg ''id'' = Some (JStr (String_num (msgId st + 1)))"
  shows
    "let p = fst (sendReq meth args st);
         st1 = run E acts (snd (sendReq meth args st));
         st2 = step E (Message now (Some msg)) st1;
         answer = (if truthy (own msg ''ok'') then (Resolve p, Data (own msg ''payload''))
                   else (Reject p, Error (JSON_stringify E
                          (if truthy (own msg ''error'') then the (own msg ''error'')
                           else JStr ''Unknown error''))))
     in calls_on p (settled st1) = []
      \<and> calls_on p (settled st2) = [answer]
      \<and> outcome p (settled st2)
          = Some (if truthy (own msg ''ok'') then Fulfilled (snd answer) else Rejected (snd answer))
      \<and> map_of (pending st2) (String_num (msgId st + 1)) = None
      \<and> (\<forall>acts'. calls_on p (settled (run E acts' st2)) = [answer])"
proof -
  let ?n = "msgId st + 1" and ?p = "promise_count st" and ?t = "timer_count st"
  let ?st1 = "run E acts (snd (sendReq meth args st))"
  have "outstanding ?n ?p ?t meth (snd (sendReq meth args st))"
    using assms(1,2) by (rule sendReq_outstanding)
  then have o: "outstanding ?n ?p ?t meth ?st1"
    using assms(3) by (rule outstanding_run)
  note r = response_outstanding [OF o assms(4,5), of E now]
  have 1: "calls_on ?p (settled ?st1) = []"
    using o by (simp add: outstanding_def)
  have 2: "map_of (AList.delete (String_num ?n) (pending ?st1)) (String_num ?n) = None"
    by (simp add: delete_conv')
  show ?thesis
    using 1 2 settled_once [OF o, of E]
    by (simp add: Let_def sendReq_eq [of meth args st, THEN arg_cong, of fst] r call_def
        calls_on_append outcome_calls_on)
       (simp add: calls_on_def)
qed

theorem response_settles_its_call_witness:
  "outcome 0 (settled (step demo_env (Message 7 (Some (demo_response ''1'' (JStr ''up''))))
       (run demo_env demo_traffic (snd (sendReq ''status'' (JObj []) (init Absent))))))
     = Some (Fulfilled (Data (Some (JStr ''up''))))
   \<and> calls_on 0 (settled (run demo_env [Message 8 (Some (demo_response ''1'' (JStr ''again''))), Close]
        (step demo_env (Message 7 (Some (demo_response ''1'' (JStr ''up''))))
          (run demo_env demo_traffic (snd (sendReq ''status'' (JObj []) (init Absent)))))))
     = [(Resolve 0, Data (Some (JStr ''up'')))]
   \<and> outcome 0 (settled (step demo_env (Message 7 (Some (demo_failure ''1'' (JStr ''no such session''))))
       (run demo_env demo_traffic (snd (sendReq ''status'' (JObj []) (init Absent))))))
     = Some (Rejected (Error (CHR 0x22 # ''no such session'' @ [CHR 0x22])))"
proof -
  have p: "fst (sendReq ''status'' (JObj []) (init Absent)) = 0"
    by (simp add: sendReq_eq init_def)
  have ok: "own (demo_response ''1'' (JStr ''up'')) ''type'' = Some (JStr ''res'')"
    "own (demo_response ''1'' (JStr ''up'')) ''id'' = Some (JStr (String_num (msgId (init Absent) + 1)))"
    by (simp_all add: demo_response_def init_def String_num.simps digit_def)
  have ko: "own (demo_failure ''1'' (JStr ''no such session'')) ''type'' = Some (JStr ''res'')"
    "own (demo_failure ''1'' (JStr ''no such session'')) ''id''
       = Some (JStr (String_num (msgId (init Absent) + 1)))"
    by (simp_all add: demo_failure_def init_def String_num.simps digit_def)
  have v: "truthy (own (demo_response ''1'' (JStr ''up'')) ''ok'')"
    "own (demo_response ''1'' (JStr ''up'')) ''payload'' = Some (JStr ''up'')"
    "\<not> truthy (own (demo_failure ''1'' (JStr ''no such session'')) ''ok'')"
    "truthy (own (demo_failure ''1'' (JStr ''no such session'')) ''error'')"
    "own (demo_failure ''1'' (JStr ''no such session'')) ''error'' = Some (JStr ''no such session'')"
    "JSON_stringify demo_env (JStr ''no such session'') = CHR 0x22 # ''no such session'' @ [CHR 0x22]"
    by (simp_all add: demo_response_def demo_failure_def demo_env_def)
  show ?thesis
    using response_settles_its_call [OF wf_init [of Absent] init_live [of Absent] demo_traffic_other ok,
        where meth = "''status''" and args = "JObj []" and E = demo_env and now = 7]
      response_settles_its_call [OF wf_init [of Absent] init_live [of Absent] demo_traffic_other ko,
        where meth = "''status''" and args = "JObj []" and E = demo_env and now = 7]
    unfolding Let_def p
    by (simp add: v)
qed

text \<open>
  C3. A request is issued by \<^verbatim>\<open>sendReq\<close> in a reachable state of a running process,
  which arms its timer with the operation timeout, and no response with its id arrives
  (other traffic may) before the timer fires. Then the promise is rejected, by exactly
  one call, with the \<^verbatim>\<open>Error\<close> whose message is "Timeout waiting for response to "
  followed by the method; the process goes on; the table no longer holds the id; a
  response frame with that id that arrives later leaves the state as it is; and
  whatever happens afterwards no second call settles the promise.
\<close>

theorem timeout_rejects_once:
  assumes "wf st" and "exited st = None"
    and "\<forall>a \<in> set acts. other_traffic (msgId st + 1) a"
  shows
    "let p = fst (sendReq meth args st);
         st1 = run E acts (snd (sendReq meth args st));
         st2 = step E (Timer (timer_count st)) st1;
         timeout = (Reject p, Error (''Timeout waiting for response to '' @ meth))
     in map_of (timers (snd (sendReq meth args st))) (timer_count st)
          = Some (OPERATION_TIMEOUT,
                  RequestTimeout (String_num (msgId st + 1)) meth (Reject p))
      \<and> calls_on p (settled st1) = []
      \<and> calls_on p (settled st2) = [timeout]
      \<and> outcome p (settled st2) = Some (Rejected (snd timeout))
      \<and> exited st2 = None
      \<and> str_includes (''Timeout waiting for response to '' @ meth) meth
      \<and> map_of (pending st2) (String_num (msgId st + 1)) = None
      \<and> (\<forall>now msg. own msg ''type'' = Some (JStr ''res'')
             \<and> own msg ''id'' = Some (JStr (String_num (msgId st + 1)))
           \<longrightarrow> step E (Message now (Some msg)) st2 = st2)
      \<and> (\<forall>acts'. calls_on p (settled (run E acts' st2)) = [timeout])"
proof -
  let ?n = "msgId st + 1" and ?p = "promise_count st" and ?t = "timer_count st"
  let ?st1 = "run E acts (snd (sendReq meth args st))"
  let ?st2 = "step E (Timer ?t) ?st1"
  have o0: "outstanding ?n ?p ?t meth (snd (sendReq meth args st))"
    using assms(1,2) by (rule sendReq_outstanding)
  then have o: "outstanding ?n ?p ?t meth ?st1"
    using assms(3) by (rule outstanding_run)
  note f = fire_outstanding [OF o, of E]
  have 0: "map_of (timers (snd (sendReq meth args st))) ?t
      = Some (OPERATION_TIMEOUT, RequestTimeout (String_num ?n) meth (Reject ?p))"
    using o0 by (simp add: outstanding_def)
  have 9: "exited ?st2 = None"
    using o by (simp add: f call_def outstanding_def)
  have 1: "calls_on ?p (settled ?st1) = []"
    using o by (simp add: outstanding_def)
  have 2: "map_of (pending ?st2) (String_num ?n) = None"
    by (simp add: f call_def delete_conv')
  have 3: "step E (Message now (Some msg)) ?st2 = ?st2"
    if "own msg ''type'' = Some (JStr ''res'')" "own msg ''id'' = Some (JStr (String_num ?n))"
    for now msg
    using 2 that by (rule late_response_dropped)
  have 4: "calls_on ?p (settled ?st2) = [(Reject ?p, Error (''Timeout waiting for response to '' @ meth))]"
    using 1 by (simp add: f call_def calls_on_append) (simp add: calls_on_def)
  have 5: "calls_on ?p (settled (run E acts' ?st2))
      = [(Reject ?p, Error (''Timeout waiting for response to '' @ meth))]" for acts'
    using settled_once [OF o, of E acts'] by (simp add: f) (simp add: calls_on_def)
  have 6: "fst (sendReq meth args st) = ?p"
    by (simp add: sendReq_eq)
  have 7: "str_includes (''Timeout waiting for response to '' @ meth) meth"
    by (rule str_includes_suffix)
  have 8: "outcome ?p (settled ?st2)
      = Some (Rejected (Error (''Timeout waiting for response to '' @ meth)))"
    by (simp add: outcome_calls_on 4)
  show ?thesis
    unfolding Let_def 6 snd_conv
    using 0 1 2 3 4 5 7 8 9 by blast
qed

theorem timeout_rejects_once_witness:
  "outcome 0 (settled (step demo_env (Timer 1)
       (run demo_env demo_traffic (snd (sendReq ''status'' (JObj []) (init Absent))))))
     = Some (Rejected (Error ''Timeout waiting for response to status''))
   \<and> map_of (pending (step demo_env (Timer 1)
       (run demo_env demo_traffic (snd (sendReq ''status'' (JObj []) (init Absent)))))) ''1'' = None
   \<and> step demo_env (Message 9 (Some (demo_response ''1'' (JStr ''late''))))
       (step demo_env (Timer 1)
         (run demo_env demo_traffic (snd (sendReq ''status'' (JObj []) (init Absent)))))
     = step demo_env (Timer 1)
         (run demo_env demo_traffic (snd (sendReq ''status'' (JObj []) (init Absent))))
   \<and> calls_on 0 (settled (run demo_env [Message 9 (Some (demo_response ''1'' (JStr ''late''))), Timer 1, Close]
       (step demo_env (Timer 1)
         (run demo_env demo_traffic (snd (sendReq ''status'' (JObj []) (init Absent)))))))
     = [(Reject 0, Error ''Timeout waiting for response to status'')]"
proof -
  have p: "fst (sendReq ''status'' (JObj []) (init Absent)) = 0"
    by (simp add: sendReq_eq init_def)
  have t: "timer_count (init Absent) = 1" "String_num (msgId (init Absent) + 1) = ''1''"
    by (simp_all add: init_def String_num.simps digit_def)
  have late: "own (demo_response ''1'' (JStr ''late'')) ''type'' = Some (JStr ''res'')
      \<and> own (demo_response ''1'' (JStr ''late'')) ''id'' = Some (JStr ''1'')"
    by (simp add: demo_response_def)
  show ?thesis
    using timeout_rejects_once [OF wf_init [of Absent] init_live [of Absent] demo_traffic_other,
        where meth = "''status''" and args = "JObj []" and E = demo_env]
      late
    unfolding Let_def p t
    by simp
qed

section \<open>Waiting for the end of a run\<close>

lemma other_event_step:
  assumes "other_event (sendRunId st) a"
  shows "step E a st = st"
proof (cases a)
  case (Message now frame)
  with assms obtain msg where frame: "frame = Some msg"
    by (cases frame) auto
  from assms have plain: "msg \<noteq> JNull" "\<not> is_challenge msg"
    and "own msg ''type'' \<noteq> Some (JStr ''res'')" and "\<not> lifecycle_end msg st"
    by (auto simp: Message frame lifecycle_end_def terminal_event_def)
  then show ?thesis
    by (simp add: Message frame step_def onmessage_plain [OF plain])
qed (use assms in simp_all)

lemma other_event_run:
  assumes "\<forall>a \<in> set acts. other_event (sendRunId st) a"
  shows "run E acts st = st"
  using assms
  by (induction acts) (simp_all add: run_def other_event_step)

lemma waiting_quiet:
  assumes "wf st"
    and "set (pending st') \<subseteq> set (pending st)" and "set (timers st') \<subseteq> set (timers st)"
    and "promise_count st' = promise_count st + 1"
  shows "quiet (promise_count st) st'"
  using assms
  by (fastforce simp: quiet_def referenced_def wf_def)

text \<open>
  C4. \<^verbatim>\<open>runSend\<close> resumes, in a reachable state of a running process, with a payload
  whose \<^verbatim>\<open>runId\<close> is truthy, and registers the completion wait with its own timer.
  Lifecycle events whose run identifier is another one (or whose phase is not
  \<^verbatim>\<open>end\<close>), and events of other kinds, leave the state as it is, however many arrive. A lifecycle event of phase \<^verbatim>\<open>end\<close> with the stored run identifier
  resolves the promise of the wait, by exactly one call, with the run identifier and
  the status \<^verbatim>\<open>completed\<close>; the same event arriving again leaves the state as it is, and
  whatever happens afterwards no second call settles the promise. If instead the timer
  of the wait fires, the promise is resolved (fulfilled, not rejected), by exactly one
  call, with the run identifier and the status \<^verbatim>\<open>timeout\<close>.
\<close>

theorem completion_wait:
  assumes "wf st" and "exited st = None" and "truthy (opt sendResult ''runId'')"
    and "\<forall>a \<in> set acts. other_event (opt sendResult ''runId'') a"
  shows
    "let runId = opt sendResult ''runId'';
         p = promise_count st;
         st1 = snd (runSend_resumed E sendResult st)
     in fst (runSend_resumed E sendResult st) = Inr p
      \<and> map_of (pending st1) ''send-wait''
          = Some \<lparr>resolve = Resolve p, reject = Resolve p, timer = timer_count st\<rparr>
      \<and> map_of (timers st1) (timer_count st) = Some (SEND_TIMEOUT E, SendTimeout (Resolve p))
      \<and> run E acts st1 = st1
      \<and> calls_on p (settled st1) = []
      \<and> (\<forall>now msg. terminal_event runId msg \<longrightarrow>
            calls_on p (settled (step E (Message now (Some msg)) st1))
              = [(Resolve p, run_status runId ''completed'')]
          \<and> outcome p (settled (step E (Message now (Some msg)) st1))
              = Some (Fulfilled (run_status runId ''completed''))
          \<and> (\<forall>now'. step E (Message now' (Some msg)) (step E (Message now (Some msg)) st1)
                = step E (Message now (Some msg)) st1)
          \<and> (\<forall>acts'. calls_on p (settled (run E acts' (step E (Message now (Some msg)) st1)))
                = [(Resolve p, run_status runId ''completed'')]))
      \<and> calls_on p (settled (step E (Timer (timer_count st)) st1))
           = [(Resolve p, run_status runId ''timeout'')]
      \<and> outcome p (settled (step E (Timer (timer_count st)) st1))
           = Some (Fulfilled (run_status runId ''timeout''))
      \<and> (\<forall>acts'. calls_on p (settled (run E acts' (step E (Timer (timer_count st)) st1)))
           = [(Resolve p, run_status runId ''timeout'')])"
proof -
  let ?rid = "opt sendResult ''runId''" and ?p = "promise_count st" and ?t = "timer_count st"
  let ?e = "\<lparr>resolve = Resolve ?p, reject = Resolve ?p, timer = ?t\<rparr>"
  define st1 where "st1 = snd (runSend_resumed E sendResult st)"
  have res: "fst (runSend_resumed E sendResult st) = Inr ?p"
    using assms(3) by (simp add: runSend_resumed_eq)
  have st1: "pending st1 = AList.update ''send-wait'' ?e (pending st)"
    "timers st1 = timers st @ [(?t, SEND_TIMEOUT E, SendTimeout (Resolve ?p))]"
    "promise_count st1 = ?p + 1" "settled st1 = settled st" "exited st1 = None"
    "sendRunId st1 = ?rid"
    using assms(2,3) by (simp_all add: st1_def runSend_resumed_eq)
  define gone where "gone = st1\<lparr>timers := AList.delete ?t (timers st1),
                    pending := AList.delete ''send-wait'' (pending st1)\<rparr>"
  have fresh: "?t \<notin> fst ` set (timers st)"
    using assms(1) by (fastforce simp: wf_def)
  have calls: "calls_on ?p (settled st1) = []"
    unfolding st1(4) using assms(1) by (intro calls_on_none) (fastforce simp: wf_def)
  have run: "run E acts st1 = st1"
    by (rule other_event_run) (simp add: assms(4) st1(6))
  have gone: "set (pending gone) \<subseteq> set (pending st)" "set (timers gone) \<subseteq> set (timers st)"
    "promise_count gone = ?p + 1" "settled gone = settled st1" "exited gone = None"
    "map_of (pending gone) ''send-wait'' = None"
    by (simp_all add: gone_def st1 delete_update_subset delete_append_fresh [OF fresh] delete_conv')
  have q: "quiet ?p (call k v gone)" for k v
    using assms(1) by (rule waiting_quiet) (simp_all add: call_def gone)
  have one: "calls_on ?p (settled (call (Resolve ?p) v gone)) = [(Resolve ?p, v)]" for v
    using calls by (simp add: call_def calls_on_append gone) (simp add: calls_on_def)
  have once: "calls_on ?p (settled (run E acts' (call (Resolve ?p) v gone)))
      = [(Resolve ?p, v)]" for acts' v
    using quiet_run [OF q, of E acts' "Resolve ?p" v] one by simp
  have entry: "map_of (pending st1) ''send-wait'' = Some ?e"
    by (simp add: st1 update_conv')
  have armed: "map_of (timers st1) ?t = Some (SEND_TIMEOUT E, SendTimeout (Resolve ?p))"
    unfolding st1 by (rule map_of_append_fresh [OF fresh])
  have fire: "step E (Timer ?t) st1 = call (Resolve ?p) (run_status ?rid ''timeout'') gone"
    using st1(5,6) armed by (simp add: step_def fire_def gone_def)
  have terminal: "step E (Message now (Some msg)) st1
      = call (Resolve ?p) (run_status ?rid ''completed'') gone"
    if "terminal_event ?rid msg" for now msg
  proof -
    from that have ev: "own msg ''type'' = Some (JStr ''event'')" "own msg ''event'' = Some (JStr ''agent'')"
      and "lifecycle_end msg st1"
      using assms(3) by (simp_all add: terminal_event_def lifecycle_end_def st1(6))
    then show ?thesis
      using st1(5,6) entry
      by (simp add: step_def agent_event [OF ev] clearTimeout_def gone_def)
  qed
  have dup: "step E (Message now' (Some msg)) (call (Resolve ?p) v gone) = call (Resolve ?p) v gone"
    if "terminal_event ?rid msg" for now' msg v
  proof -
    from that have ev: "own msg ''type'' = Some (JStr ''event'')" "own msg ''event'' = Some (JStr ''agent'')"
      by (simp_all add: terminal_event_def)
    have "map_of (pending (call (Resolve ?p) v gone)) ''send-wait'' = None"
      by (simp add: call_def gone)
    then show ?thesis
      by (simp add: step_def agent_event [OF ev])
  qed
  have out: "outcome ?p (settled (call (Resolve ?p) v gone)) = Some (Fulfilled v)" for v
    by (simp add: outcome_calls_on one)
  show ?thesis
    unfolding Let_def st1_def [symmetric]
    using res run calls entry armed
    by (simp add: terminal fire one once dup out)
qed

theorem completion_wait_witness:
  "run demo_env [Message 5 (Some (demo_lifecycle ''end'' ''r2''))]
       (snd (runSend_resumed demo_env (Some (JObj [(''runId'', JStr ''r1'')])) (init Absent)))
     = snd (runSend_resumed demo_env (Some (JObj [(''runId'', JStr ''r1'')])) (init Absent))
   \<and> outcome 0 (settled (step demo_env (Message 6 (Some (demo_lifecycle ''end'' ''r1'')))
        (snd (runSend_resumed demo_env (Some (JObj [(''runId'', JStr ''r1'')])) (init Absent)))))
     = Some (Fulfilled (Data (Some (JObj [(''runId'', JStr ''r1''), (''status'', JStr ''completed'')]))))
   \<and> calls_on 0 (settled (run demo_env
        [Message 7 (Some (demo_lifecycle ''end'' ''r1'')), Timer 1, Close]
        (step demo_env (Message 6 (Some (demo_lifecycle ''end'' ''r1'')))
          (snd (runSend_resumed demo_env (Some (JObj [(''runId'', JStr ''r1'')])) (init Absent))))))
     = [(Resolve 0, Data (Some (JObj [(''runId'', JStr ''r1''), (''status'', JStr ''completed'')])))]
   \<and> outcome 0 (settled (step demo_env (Timer 1)
        (snd (runSend_resumed demo_env (Some (JObj [(''runId'', JStr ''r1'')])) (init Absent)))))
     = Some (Fulfilled (Data (Some (JObj [(''runId'', JStr ''r1''), (''status'', JStr ''timeout'')]))))"
proof -
  have r: "opt (Some (JObj [(''runId'', JStr ''r1'')])) ''runId'' = Some (JStr ''r1'')"
    by (simp add: opt_def)
  have h3: "truthy (opt (Some (JObj [(''runId'', JStr ''r1'')])) ''runId'')"
    by (simp add: r)
  have h4: "\<forall>a \<in> set [Message 5 (Some (demo_lifecycle ''end'' ''r2''))].
      other_event (opt (Some (JObj [(''runId'', JStr ''r1'')])) ''runId'') a"
    by (simp add: r demo_lifecycle_def opt_def is_challenge_def terminal_event_def)
  have te: "terminal_event (Some (JStr ''r1'')) (demo_lifecycle ''end'' ''r1'')"
    by (simp add: terminal_event_def demo_lifecycle_def opt_def)
  have c: "promise_count (init Absent) = 0" "timer_count (init Absent) = 1"
    by (simp_all add: init_def)
  show ?thesis
    using completion_wait [OF wf_init [of Absent] init_live [of Absent] h3 h4, where E = demo_env] te
    unfolding Let_def r c
    by (simp add: run_status_def property_def)
qed


end
